theory Spec2Isabelle
  imports Complex_Main
begin

section \<open>Python values shared by the services\<close>

text \<open>
  The exceptions of the Python runtime that the modelled code can raise. A function
  that can raise returns \<open>py_error + 'a\<close>, with \<open>Inl\<close> for the exception.
\<close>

datatype py_error = AttributeError | ZeroDivisionError | IndexError | ValueError | OSError

subsection \<open>Floating-point numbers\<close>

text \<open>
  A Python float is an IEEE 754 double. An operation on floats returns the exact result
  rounded to the nearest double, a tie going to the even mantissa: \<open>double_round\<close>
  of the exact result. A double has a mantissa of 53 bits, and the exponent of its last
  bit is at least \<open>-1074\<close> (the subnormal numbers); the model puts no upper bound on
  the exponent, so the overflow to infinity, from \<open>2 ^ 1024\<close> on, is not part of it.
  \<open>halvings\<close> and \<open>doublings\<close> count the steps that bring a positive number into
  the interval from 1 to 2, \<open>binade x\<close> is the exponent of the greatest power of two that
  is at most \<open>x\<close>, and \<open>expo x\<close> is the exponent of the last bit of the mantissa of
  the doubles next to \<open>x\<close>.

  The quotients and products of the frame normaliser and the progress that the
  orchestrator accumulates are rounded in this way. The durations and the times of
  clips are rationals, and their sums and differences are exact: the packing loop below
  is the loop of the code on the runs whose durations are doubles that add up without
  rounding, as the whole numbers of seconds of the runs evaluated here do.
\<close>

definition round_half_even :: "rat \<Rightarrow> int" where
  "round_half_even z =
     (let f = \<lfloor>z\<rfloor>; r = z - of_int f
      in if r < 1 / 2 then f else if 1 / 2 < r then f + 1 else if even f then f else f + 1)"

function halvings :: "rat \<Rightarrow> nat" where
  "halvings x = (if 2 \<le> x then Suc (halvings (x / 2)) else 0)"
  by pat_completeness auto
termination
proof (relation "measure (\<lambda>x. nat \<lfloor>x\<rfloor>)")
  show "wf (measure (\<lambda>x :: rat. nat \<lfloor>x\<rfloor>))" by simp
next
  fix x :: rat
  assume x: "2 \<le> x"
  have "\<lfloor>x / 2\<rfloor> < \<lfloor>x\<rfloor>"
  proof -
    have "x / 2 < of_int \<lfloor>x\<rfloor>"
    proof -
      have "x - 1 < of_int \<lfloor>x\<rfloor>" by linarith
      moreover have "x / 2 \<le> x - 1" using x by simp
      ultimately show ?thesis by linarith
    qed
    then show ?thesis by (simp add: floor_less_iff)
  qed
  moreover have "0 < \<lfloor>x\<rfloor>" using x by simp
  ultimately show "(x / 2, x) \<in> measure (\<lambda>x. nat \<lfloor>x\<rfloor>)" by simp
qed

function doublings :: "rat \<Rightarrow> nat" where
  "doublings x = (if 0 < x \<and> x < 1 then Suc (doublings (2 * x)) else 0)"
  by pat_completeness auto
termination
proof (relation "measure (\<lambda>x. nat \<lfloor>1 / x\<rfloor>)")
  show "wf (measure (\<lambda>x :: rat. nat \<lfloor>1 / x\<rfloor>))" by simp
next
  fix x :: rat
  assume x: "0 < x \<and> x < 1"
  define y where "y = 1 / x"
  have y: "1 < y" using x by (simp add: y_def)
  have e: "1 / (2 * x) = y / 2" by (simp add: y_def)
  have "y / 2 < of_int \<lfloor>y\<rfloor>"
  proof -
    have "y - 1 < of_int \<lfloor>y\<rfloor>" by linarith
    moreover have "1 \<le> \<lfloor>y\<rfloor>" using y by simp
    then have "(1 :: rat) \<le> of_int \<lfloor>y\<rfloor>" by (metis of_int_1 of_int_le_iff)
    ultimately show ?thesis by linarith
  qed
  then have "\<lfloor>y / 2\<rfloor> < \<lfloor>y\<rfloor>" by (simp add: floor_less_iff)
  moreover have "0 < \<lfloor>y\<rfloor>" using y by simp
  ultimately show "(2 * x, x) \<in> measure (\<lambda>x. nat \<lfloor>1 / x\<rfloor>)"
    unfolding e [symmetric] y_def by (simp add: mult.commute)
qed

definition binade :: "rat \<Rightarrow> int" where
  "binade x = (if 1 \<le> x then int (halvings x) else - int (doublings x))"

definition expo :: "rat \<Rightarrow> int" where
  "expo x = max (binade x - 52) (- 1074)"

definition double_round :: "rat \<Rightarrow> rat" where
  "double_round x =
     (if x = 0 then 0
      else let a = \<bar>x\<bar>; e = expo a;
               v = of_int (round_half_even (a / 2 powi e)) * 2 powi e
           in if x < 0 then - v else v)"

subsection \<open>app/models/schema.py\<close>

datatype VideoConcatMode = random | sequential

datatype VideoTransitionMode = none | shuffle | fade_in | fade_out | slide_in | slide_out

datatype VideoAspect = landscape | portrait | square

text \<open>
  \<open>VideoTransitionMode\<close> is a \<open>str\<close> enumeration, so the value of the member
  \<open>none = None\<close> is the string \<open>str(None)\<close>.
\<close>

fun transition_value :: "VideoTransitionMode \<Rightarrow> string" where
  "transition_value none = ''None''"
| "transition_value shuffle = ''Shuffle''"
| "transition_value fade_in = ''FadeIn''"
| "transition_value fade_out = ''FadeOut''"
| "transition_value slide_in = ''SlideIn''"
| "transition_value slide_out = ''SlideOut''"

fun concat_value :: "VideoConcatMode \<Rightarrow> string" where
  "concat_value random = ''random''"
| "concat_value sequential = ''sequential''"

fun aspect_value :: "VideoAspect \<Rightarrow> string" where
  "aspect_value landscape = ''16:9''"
| "aspect_value portrait = ''9:16''"
| "aspect_value square = ''1:1''"

definition to_resolution :: "VideoAspect \<Rightarrow> nat \<times> nat" where
  "to_resolution self =
     (if aspect_value self = aspect_value landscape then (1920, 1080)
      else if aspect_value self = aspect_value portrait then (1080, 1920)
      else if aspect_value self = aspect_value square then (1080, 1080)
      else (1080, 1920))"

section \<open>app/services/video.py\<close>

subsection \<open>Subtitle position (create_text_clip)\<close>

text \<open>
  The vertical coordinate handed to \<open>with_position\<close>: a number of pixels, or the
  keyword \<open>"center"\<close>.
\<close>

datatype ycoord = Pixels rat | CenterY

definition custom_y :: "int \<Rightarrow> int \<Rightarrow> rat \<Rightarrow> rat" where
  "custom_y video_height clip_h custom_position =
     (let margin = 10;
          max_y = video_height - clip_h - margin;
          min_y = margin;
          y = of_int (video_height - clip_h) * (custom_position / 100)
      in max (of_int min_y) (min y (of_int max_y)))"

definition subtitle_y :: "string \<Rightarrow> rat \<Rightarrow> int \<Rightarrow> int \<Rightarrow> ycoord" where
  "subtitle_y subtitle_position custom_position video_height clip_h =
     (if subtitle_position = ''bottom'' then
        Pixels (of_int video_height * (95 / 100) - of_int clip_h)
      else if subtitle_position = ''top'' then
        Pixels (of_int video_height * (5 / 100))
      else if subtitle_position = ''custom'' then
        Pixels (custom_y video_height clip_h custom_position)
      else CenterY)"

subsection \<open>Text wrapping (wrap_text)\<close>

text \<open>
  Strings are lists of bytes. \<open>is_space\<close> is \<open>str.isspace\<close> on the ASCII range,
  \<open>strip\<close> is \<open>str.strip()\<close>, \<open>split_char sep\<close> is \<open>str.split(sep)\<close> for a separator
  of one character, and \<open>join_nl\<close> is \<open>"\n".join\<close>.
\<close>

definition NL :: char where
  "NL = CHR 0x0A"

definition is_space :: "char \<Rightarrow> bool" where
  "is_space c = (c \<in> set [CHR 0x09, CHR 0x0A, CHR 0x0B, CHR 0x0C, CHR 0x0D,
                           CHR 0x1C, CHR 0x1D, CHR 0x1E, CHR 0x1F, CHR '' ''])"

definition strip :: "string \<Rightarrow> string" where
  "strip s = rev (dropWhile is_space (rev (dropWhile is_space s)))"

fun split_char :: "char \<Rightarrow> string \<Rightarrow> string list" where
  "split_char sep [] = [[]]"
| "split_char sep (c # cs) =
     (if c = sep then [] # split_char sep cs
      else (case split_char sep cs of
              [] \<Rightarrow> [[c]]
            | w # ws \<Rightarrow> (c # w) # ws))"

fun join_nl :: "string list \<Rightarrow> string" where
  "join_nl [] = []"
| "join_nl [l] = l"
| "join_nl (l # ls) = l @ [NL] @ join_nl ls"

text \<open>
  A loaded font is its function \<open>getbbox\<close>, from a text to the bounding box
  \<open>(left, top, right, bottom)\<close> of its rendering.
\<close>

type_synonym font = "string \<Rightarrow> int \<times> int \<times> int \<times> int"

definition get_text_size :: "font \<Rightarrow> string \<Rightarrow> int \<times> int" where
  "get_text_size font inner_text =
     (case font (strip inner_text) of (l, t, r, b) \<Rightarrow> (r - l, b - t))"

text \<open>
  The loop \<open>for word in words\<close>. The result is the flag \<open>processed\<close>, the lines
  closed so far and the line under construction; the flag is false when the loop was
  left by \<open>break\<close>.
\<close>

fun word_loop ::
  "font \<Rightarrow> rat \<Rightarrow> string list \<Rightarrow> string list \<Rightarrow> string \<Rightarrow> bool \<times> string list \<times> string"
where
  "word_loop font max_width [] wrapped_lines txt = (True, wrapped_lines, txt)"
| "word_loop font max_width (word # rest) wrapped_lines txt =
     (let before = txt;
          txt' = txt @ word @ '' '';
          width = fst (get_text_size font txt')
      in if of_int width \<le> max_width then word_loop font max_width rest wrapped_lines txt'
         else if strip txt' = strip word then (False, wrapped_lines, txt')
         else word_loop font max_width rest (wrapped_lines @ [before]) (word @ '' ''))"

text \<open>The loop \<open>for word in chars\<close> of the fallback.\<close>

fun char_loop ::
  "font \<Rightarrow> rat \<Rightarrow> string \<Rightarrow> string list \<Rightarrow> string \<Rightarrow> string list \<times> string"
where
  "char_loop font max_width [] wrapped_lines txt = (wrapped_lines, txt)"
| "char_loop font max_width (word # rest) wrapped_lines txt =
     (let txt' = txt @ [word];
          width = fst (get_text_size font txt')
      in if of_int width \<le> max_width then char_loop font max_width rest wrapped_lines txt'
         else char_loop font max_width rest (wrapped_lines @ [txt']) [])"

definition wrap_text :: "font \<Rightarrow> string \<Rightarrow> rat \<Rightarrow> string \<times> int" where
  "wrap_text font text max_width =
     (case get_text_size font text of (width, height) \<Rightarrow>
        if of_int width \<le> max_width then (text, height)
        else
          (case word_loop font max_width (split_char CHR '' '' text) [] [] of
             (processed, lines0, txt) \<Rightarrow>
               let wrapped_lines = lines0 @ [txt] in
               if processed then
                 let stripped = map strip wrapped_lines;
                     result = strip (join_nl stripped)
                 in (result, int (length stripped) * height)
               else
                 (case char_loop font max_width text [] [] of
                    (lines1, txt1) \<Rightarrow>
                      let char_lines = lines1 @ [txt1];
                          result = strip (join_nl char_lines)
                      in (result, int (length char_lines) * height))))"

text \<open>The lines of a wrapped text and the widest of their renderings.\<close>

definition emitted_lines :: "string \<Rightarrow> string list" where
  "emitted_lines result = split_char NL result"

definition line_widths :: "font \<Rightarrow> string \<Rightarrow> int list" where
  "line_widths font result = map (\<lambda>l. fst (get_text_size font l)) (emitted_lines result)"

subsection \<open>Video clips\<close>

text \<open>
  A clip is the source file it was opened from together with the transforms applied to
  it, in the order of application. Every transform of the library returns a new clip.
  \<open>VideoFileClip path d w h\<close> is the opened file with its duration and frame size;
  \<open>ColorClip w h color d\<close> is a solid frame given the duration \<open>d\<close> by
  \<open>with_duration\<close>.
\<close>

datatype side = left | right | top | bottom

datatype effect = FadeIn rat | FadeOut rat | SlideIn rat side | SlideOut rat side

datatype vclip =
    VideoFileClip string rat nat nat
  | Subclipped vclip rat rat
  | WithFps vclip nat
  | Resized vclip nat nat
  | ColorClip nat nat "nat \<times> nat \<times> nat" rat
  | WithPosition vclip string
  | CompositeVideoClip "vclip list"
  | WithEffect vclip effect
  | WithoutAudio vclip

text \<open>
  The attributes \<open>clip.duration\<close> and \<open>clip.size\<close> as the library computes them:
  a subclip lasts from its start to its end, a negative time being counted from the end
  of the clip it is cut from; a composite lasts as long as its longest layer and, built
  without an explicit size, has the size of its first layer.
\<close>

fun duration_of :: "vclip \<Rightarrow> rat" where
  "duration_of (VideoFileClip p d w h) = d"
| "duration_of (Subclipped c s e) =
     (let start_time = (if s < 0 then duration_of c + s else s);
          end_time = (if e < 0 then duration_of c + e else e)
      in end_time - start_time)"
| "duration_of (WithFps c f) = duration_of c"
| "duration_of (Resized c w h) = duration_of c"
| "duration_of (ColorClip w h col d) = d"
| "duration_of (WithPosition c p) = duration_of c"
| "duration_of (CompositeVideoClip cs) = foldr max (map duration_of cs) 0"
| "duration_of (WithEffect c e) = duration_of c"
| "duration_of (WithoutAudio c) = duration_of c"

fun size_of :: "vclip \<Rightarrow> nat \<times> nat" where
  "size_of (VideoFileClip p d w h) = (w, h)"
| "size_of (Subclipped c s e) = size_of c"
| "size_of (WithFps c f) = size_of c"
| "size_of (Resized c w h) = (w, h)"
| "size_of (ColorClip w h col d) = (w, h)"
| "size_of (WithPosition c p) = size_of c"
| "size_of (CompositeVideoClip cs) = (case cs of [] \<Rightarrow> (0, 0) | c # _ \<Rightarrow> size_of c)"
| "size_of (WithEffect c e) = size_of c"
| "size_of (WithoutAudio c) = size_of c"

subsection \<open>Frame normalisation (combine_videos, lines 134 to 175)\<close>

text \<open>
  The sizes of a clip are integers. \<open>clip.w / clip.h\<close> is the quotient of two
  integers, rounded once; in \<open>clip_w * scale_factor\<close> the integer is converted to a
  float first, and \<open>int\<close> truncates the rounded product.
\<close>

definition normalize :: "nat \<Rightarrow> nat \<Rightarrow> vclip \<Rightarrow> py_error + vclip" where
  "normalize video_width video_height clip =
     (let (clip_w, clip_h) = size_of clip in
      if clip_w \<noteq> video_width \<or> clip_h \<noteq> video_height then
        if clip_h = 0 \<or> video_height = 0 then Inl ZeroDivisionError
        else
          let clip_ratio = double_round (of_nat clip_w / of_nat clip_h);
              video_ratio = double_round (of_nat video_width / of_nat video_height)
          in if clip_ratio = video_ratio then
               Inr (Resized clip video_width video_height)
             else
               let scale_factor =
                     (if clip_ratio > video_ratio
                      then double_round (of_nat video_width / of_nat clip_w)
                      else double_round (of_nat video_height / of_nat clip_h));
                   new_width =
                     nat \<lfloor>double_round (double_round (of_nat clip_w) * scale_factor)\<rfloor>;
                   new_height =
                     nat \<lfloor>double_round (double_round (of_nat clip_h) * scale_factor)\<rfloor>;
                   clip_resized = Resized clip new_width new_height;
                   background = ColorClip video_width video_height (0, 0, 0) (duration_of clip)
               in Inr (CompositeVideoClip
                         [background, WithPosition clip_resized ''center''])
      else Inr clip)"

subsection \<open>The random source\<close>

text \<open>
  The module \<open>random\<close> is a sequence of draws \<open>rnd 0, rnd 1, \<dots>\<close>; the number of
  draws made so far is threaded through the code that draws. \<open>random_choice\<close> raises
  on an empty sequence, as \<open>random.choice\<close> does; \<open>pick\<close> is the same choice from a
  list literal. \<open>random_shuffle\<close> is the exchange loop of \<open>random.shuffle\<close>, from the
  last index down to index 1.
\<close>

definition pick :: "(nat \<Rightarrow> nat) \<Rightarrow> nat \<Rightarrow> 'a list \<Rightarrow> 'a" where
  "pick rnd k xs = xs ! (rnd k mod length xs)"

definition random_choice :: "(nat \<Rightarrow> nat) \<Rightarrow> nat \<Rightarrow> 'a list \<Rightarrow> py_error + 'a" where
  "random_choice rnd k xs = (if xs = [] then Inl IndexError else Inr (pick rnd k xs))"

fun shuffle_loop :: "(nat \<Rightarrow> nat) \<Rightarrow> nat \<Rightarrow> nat \<Rightarrow> 'a list \<Rightarrow> 'a list \<times> nat" where
  "shuffle_loop rnd k 0 xs = (xs, k)"
| "shuffle_loop rnd k (Suc i) xs =
     (let j = rnd k mod (Suc i + 1)
      in shuffle_loop rnd (Suc k) i (xs[Suc i := xs ! j, j := xs ! Suc i]))"

definition random_shuffle :: "(nat \<Rightarrow> nat) \<Rightarrow> nat \<Rightarrow> 'a list \<Rightarrow> 'a list \<times> nat" where
  "random_shuffle rnd k xs = shuffle_loop rnd k (length xs - 1) xs"

subsection \<open>Building the pool of segments (combine_videos, lines 94 to 118)\<close>

text \<open>
  The loop \<open>while start_time < clip_duration\<close> cuts one source clip into windows. It
  is a partial function: with a window length that is not positive it never leaves the
  loop in random mode, and then the result is \<open>None\<close>.
\<close>

partial_function (option) split_while ::
  "vclip \<Rightarrow> rat \<Rightarrow> int \<Rightarrow> VideoConcatMode \<Rightarrow> rat \<Rightarrow> vclip list \<Rightarrow> vclip list option"
where
  "split_while clip clip_duration max_clip_duration video_concat_mode start_time raw_clips =
     (if start_time < clip_duration then
        let end_time = min (start_time + of_int max_clip_duration) clip_duration;
            split_clip = Subclipped clip start_time end_time;
            raw_clips' = raw_clips @ [split_clip]
        in if concat_value video_concat_mode = concat_value sequential then Some raw_clips'
           else split_while clip clip_duration max_clip_duration video_concat_mode
                  end_time raw_clips'
      else Some raw_clips)"

declare split_while.simps [code]

text \<open>
  \<open>media path\<close> is what opening the file at \<open>path\<close> reports: its duration, width
  and height.
\<close>

fun build_raw_clips ::
  "(string \<Rightarrow> rat \<times> nat \<times> nat) \<Rightarrow> int \<Rightarrow> VideoConcatMode \<Rightarrow> string list \<Rightarrow> vclip list
     \<Rightarrow> vclip list option"
where
  "build_raw_clips media max_clip_duration video_concat_mode [] raw_clips = Some raw_clips"
| "build_raw_clips media max_clip_duration video_concat_mode (video_path # rest) raw_clips =
     (case media video_path of (d, w, h) \<Rightarrow>
        let clip = WithoutAudio (VideoFileClip video_path d w h);
            clip_duration = duration_of clip
        in (case split_while clip clip_duration max_clip_duration video_concat_mode 0 raw_clips of
              None \<Rightarrow> None
            | Some raw_clips' \<Rightarrow>
                build_raw_clips media max_clip_duration video_concat_mode rest raw_clips'))"

subsection \<open>Transitions (combine_videos, lines 177 to 201)\<close>

text \<open>
  Modelled from the spec: the module \<open>app/services/utils/video_effects.py\<close> is not
  among the sources. Each of its four functions applies one effect with the given
  window to the clip and returns the new clip; the effect does not change the
  duration or the frame size of the clip.
\<close>

definition fadein_transition :: "vclip \<Rightarrow> rat \<Rightarrow> vclip" where
  "fadein_transition clip t = WithEffect clip (FadeIn t)"

definition fadeout_transition :: "vclip \<Rightarrow> rat \<Rightarrow> vclip" where
  "fadeout_transition clip t = WithEffect clip (FadeOut t)"

definition slidein_transition :: "vclip \<Rightarrow> rat \<Rightarrow> side \<Rightarrow> vclip" where
  "slidein_transition clip t sd = WithEffect clip (SlideIn t sd)"

definition slideout_transition :: "vclip \<Rightarrow> rat \<Rightarrow> side \<Rightarrow> vclip" where
  "slideout_transition clip t sd = WithEffect clip (SlideOut t sd)"

text \<open>
  \<open>video_transition_mode\<close> is \<open>None\<close> when the caller passed Python's \<open>None\<close>; reading
  the attribute \<open>value\<close> of it raises. The result carries the number of draws made.
\<close>

definition apply_transition ::
  "(nat \<Rightarrow> nat) \<Rightarrow> nat \<Rightarrow> VideoTransitionMode option \<Rightarrow> vclip \<Rightarrow> py_error + (vclip \<times> nat)"
where
  "apply_transition rnd k video_transition_mode clip =
     (let shuffle_side = pick rnd k [left, right, top, bottom] in
      case video_transition_mode of
        None \<Rightarrow> Inl AttributeError
      | Some m \<Rightarrow>
          if transition_value m = transition_value none then Inr (clip, Suc k)
          else if transition_value m = transition_value fade_in then
            Inr (fadein_transition clip 1, Suc k)
          else if transition_value m = transition_value fade_out then
            Inr (fadeout_transition clip 1, Suc k)
          else if transition_value m = transition_value slide_in then
            Inr (slidein_transition clip 1 shuffle_side, Suc k)
          else if transition_value m = transition_value slide_out then
            Inr (slideout_transition clip 1 shuffle_side, Suc k)
          else if transition_value m = transition_value shuffle then
            let transition_funcs =
                  [\<lambda>c. fadein_transition c 1,
                   \<lambda>c. fadeout_transition c 1,
                   \<lambda>c. slidein_transition c 1 shuffle_side,
                   \<lambda>c. slideout_transition c 1 shuffle_side];
                shuffle_transition = pick rnd (Suc k) transition_funcs
            in Inr (shuffle_transition clip, Suc (Suc k))
          else Inr (clip, Suc k))"

subsection \<open>Packing the pool over the audio (combine_videos, lines 120 to 210)\<close>

record pack_state =
  clips :: "vclip list"
  video_duration :: rat
  draws :: nat

text \<open>The body of \<open>for clip in raw_clips\<close>, for one clip of the pool.\<close>

definition pack_clip ::
  "(nat \<Rightarrow> nat) \<Rightarrow> nat \<Rightarrow> nat \<Rightarrow> VideoTransitionMode option \<Rightarrow> int \<Rightarrow> rat \<Rightarrow> vclip
     \<Rightarrow> pack_state \<Rightarrow> py_error + pack_state"
where
  "pack_clip rnd video_width video_height video_transition_mode max_clip_duration
     audio_duration clip0 st =
     (let req_dur = (of_int max_clip_duration :: rat);
          clip1 =
            (if audio_duration - video_duration st < duration_of clip0 then
               Subclipped clip0 0 (audio_duration - video_duration st)
             else if req_dur < duration_of clip0 then Subclipped clip0 0 req_dur
             else clip0);
          clip2 = WithFps clip1 30
      in case normalize video_width video_height clip2 of
           Inl e \<Rightarrow> Inl e
         | Inr clip3 \<Rightarrow>
             (case apply_transition rnd (draws st) video_transition_mode clip3 of
                Inl e \<Rightarrow> Inl e
              | Inr (clip4, k) \<Rightarrow>
                  let clip5 =
                        (if duration_of clip4 > of_int max_clip_duration
                         then Subclipped clip4 0 (of_int max_clip_duration) else clip4)
                  in Inr \<lparr>clips = clips st @ [clip5],
                          video_duration = video_duration st + duration_of clip5,
                          draws = k\<rparr>))"

text \<open>The loop \<open>for clip in raw_clips\<close>: it has no exit other than an exception.\<close>

fun pack_for ::
  "(nat \<Rightarrow> nat) \<Rightarrow> nat \<Rightarrow> nat \<Rightarrow> VideoTransitionMode option \<Rightarrow> int \<Rightarrow> rat \<Rightarrow> vclip list
     \<Rightarrow> pack_state \<Rightarrow> py_error + pack_state"
where
  "pack_for rnd W H tm mx ad [] st = Inr st"
| "pack_for rnd W H tm mx ad (clip # rest) st =
     (case pack_clip rnd W H tm mx ad clip st of
        Inl e \<Rightarrow> Inl e
      | Inr st' \<Rightarrow> pack_for rnd W H tm mx ad rest st')"

text \<open>
  The loop \<open>while video_duration < audio_duration\<close>. A run that never leaves the loop
  is the value \<open>None\<close>.
\<close>

partial_function (option) pack_while ::
  "(nat \<Rightarrow> nat) \<Rightarrow> nat \<Rightarrow> nat \<Rightarrow> VideoTransitionMode option \<Rightarrow> int \<Rightarrow> rat \<Rightarrow> vclip list
     \<Rightarrow> pack_state \<Rightarrow> (py_error + pack_state) option"
where
  "pack_while rnd W H tm mx audio_duration raw_clips st =
     (if video_duration st < audio_duration then
        case pack_for rnd W H tm mx audio_duration raw_clips st of
          Inl e \<Rightarrow> Some (Inl e)
        | Inr st' \<Rightarrow> pack_while rnd W H tm mx audio_duration raw_clips st'
      else Some (Inr st))"

declare pack_while.simps [code]

text \<open>
  \<open>combine_videos\<close>: \<open>audio_duration\<close> is the duration of the opened audio file. The
  result is the sequence of clips handed to \<open>concatenate_videoclips\<close>; \<open>None\<close> is a
  run that does not return.
\<close>

definition combine_videos ::
  "(string \<Rightarrow> rat \<times> nat \<times> nat) \<Rightarrow> (nat \<Rightarrow> nat) \<Rightarrow> rat \<Rightarrow> string list \<Rightarrow> VideoAspect
     \<Rightarrow> VideoConcatMode \<Rightarrow> VideoTransitionMode option \<Rightarrow> int \<Rightarrow> (py_error + vclip list) option"
where
  "combine_videos media rnd audio_duration video_paths video_aspect video_concat_mode
     video_transition_mode max_clip_duration =
     (if video_paths = [] then Some (Inl ZeroDivisionError)
      else
        case to_resolution video_aspect of (video_width, video_height) \<Rightarrow>
        (case build_raw_clips media max_clip_duration video_concat_mode video_paths [] of
           None \<Rightarrow> None
         | Some raw_clips0 \<Rightarrow>
             let (raw_clips, k) =
                   (if concat_value video_concat_mode = concat_value random
                    then random_shuffle rnd 0 raw_clips0 else (raw_clips0, 0))
             in (case pack_while rnd video_width video_height video_transition_mode
                        max_clip_duration audio_duration raw_clips
                        \<lparr>clips = [], video_duration = 0, draws = k\<rparr> of
                   None \<Rightarrow> None
                 | Some (Inl e) \<Rightarrow> Some (Inl e)
                 | Some (Inr st) \<Rightarrow>
                     Some (Inr (map (\<lambda>clip. CompositeVideoClip [clip]) (clips st))))))"

subsection \<open>Request parameters (schema.py)\<close>

text \<open>
  \<open>VideoParams\<close>, with the fields the services read. An optional string is
  \<open>None\<close> or a string; \<open>video_terms\<close> is \<open>None\<close>, a string or a list of strings.
\<close>

datatype terms_param = TermsNone | TermsStr string | TermsList "string list"

record MaterialInfo =
  provider :: string
  url :: string
  duration :: int

record VideoParams =
  video_subject :: string
  video_script :: string
  video_terms :: terms_param
  video_aspect :: VideoAspect
  video_concat_mode :: VideoConcatMode
  video_transition_mode :: "VideoTransitionMode option"
  video_clip_duration :: int
  video_count :: int
  video_source :: string
  video_materials :: "MaterialInfo list"
  video_language :: string
  voice_name :: string
  voice_volume :: rat
  voice_rate :: rat
  bgm_type :: "string option"
  bgm_file :: "string option"
  bgm_volume :: rat
  subtitle_enabled :: bool
  n_threads :: int
  paragraph_number :: int

text \<open>The truth value of an optional string: \<open>None\<close> and the empty string are false.\<close>

definition truthy :: "string option \<Rightarrow> bool" where
  "truthy s = (case s of None \<Rightarrow> False | Some v \<Rightarrow> v \<noteq> [])"

subsection \<open>Audio clips\<close>

text \<open>
  An audio clip is an opened file (its path, its duration and its signal as a function
  of the time), an effect applied to a clip, or the sum of several clips.
  \<open>with_effects\<close> applies the effects of its list from the first to the last.
  \<open>a_duration\<close> and \<open>a_frame\<close> are the duration and the signal as the library
  computes them: the fade-out scales the last seconds of the clip it is applied to, the
  loop replays the clip it is applied to up to the given duration.
\<close>

datatype audio_effect = MultiplyVolume rat | AudioFadeOut rat | AudioLoop rat

datatype aclip =
    AudioFileClip string rat "rat \<Rightarrow> rat"
  | WithAudioEffect aclip audio_effect
  | CompositeAudioClip "aclip list"

definition with_effects :: "aclip \<Rightarrow> audio_effect list \<Rightarrow> aclip" where
  "with_effects clip effects = foldl WithAudioEffect clip effects"

definition fmod :: "rat \<Rightarrow> rat \<Rightarrow> rat" where
  "fmod t d = t - d * of_int \<lfloor>t / d\<rfloor>"

fun a_duration :: "aclip \<Rightarrow> rat" where
  "a_duration (AudioFileClip p d f) = d"
| "a_duration (WithAudioEffect c (AudioLoop d)) = d"
| "a_duration (WithAudioEffect c (MultiplyVolume v)) = a_duration c"
| "a_duration (WithAudioEffect c (AudioFadeOut d)) = a_duration c"
| "a_duration (CompositeAudioClip cs) = foldr max (map a_duration cs) 0"

fun a_frame :: "aclip \<Rightarrow> rat \<Rightarrow> rat" where
  "a_frame (AudioFileClip p d f) t = f t"
| "a_frame (WithAudioEffect c (MultiplyVolume v)) t = v * a_frame c t"
| "a_frame (WithAudioEffect c (AudioFadeOut d)) t =
     min ((a_duration c - t) / d) 1 * a_frame c t"
| "a_frame (WithAudioEffect c (AudioLoop d)) t = a_frame c (fmod t (a_duration c))"
| "a_frame (CompositeAudioClip cs) t =
     sum_list (map (\<lambda>c. if 0 \<le> t \<and> t < a_duration c then a_frame c t else 0) cs)"

subsection \<open>Background music (get_bgm_file, generate_video)\<close>

text \<open>
  The host the code runs on: which paths exist, what the pattern \<open>*.mp3\<close> matches in
  the song directory, and which audio files can be opened (with their duration and
  signal). Opening a file that cannot be opened raises.
\<close>

record host =
  path_exists :: "string \<Rightarrow> bool"
  song_files :: "string list"
  audio_files :: "string \<Rightarrow> (rat \<times> (rat \<Rightarrow> rat)) option"

definition open_audio :: "host \<Rightarrow> string \<Rightarrow> py_error + aclip" where
  "open_audio hst path =
     (case audio_files hst path of
        None \<Rightarrow> Inl OSError
      | Some (d, f) \<Rightarrow> Inr (AudioFileClip path d f))"

definition get_bgm_file ::
  "host \<Rightarrow> (nat \<Rightarrow> nat) \<Rightarrow> string option \<Rightarrow> string option \<Rightarrow> py_error + string"
where
  "get_bgm_file hst rnd bgm_type' bgm_file' =
     (if \<not> truthy bgm_type' then Inr []
      else if truthy bgm_file' \<and> path_exists hst (the bgm_file') then Inr (the bgm_file')
      else if bgm_type' = Some ''random'' then random_choice rnd 0 (song_files hst)
      else Inr [])"

text \<open>
  The audio of \<open>generate_video\<close> (lines 363 to 399): the track attached to the final
  clip, and the lines written to the error log. \<open>final_duration\<close> is the duration of
  the video clip. The subtitle overlay and the writing of the file are not part of the
  model.
\<close>

definition generate_video ::
  "host \<Rightarrow> (nat \<Rightarrow> nat) \<Rightarrow> VideoParams \<Rightarrow> rat \<Rightarrow> string \<Rightarrow> py_error + (aclip \<times> string list)"
where
  "generate_video hst rnd params final_duration audio_path =
     (case open_audio hst audio_path of
        Inl e \<Rightarrow> Inl e
      | Inr voice \<Rightarrow>
          let audio_clip = with_effects voice [MultiplyVolume (voice_volume params)] in
          (case get_bgm_file hst rnd (bgm_type params) (bgm_file params) of
             Inl e \<Rightarrow> Inl e
           | Inr bgm \<Rightarrow>
               if bgm \<noteq> [] then
                 (case open_audio hst bgm of
                    Inl e \<Rightarrow> Inr (audio_clip, [''failed to add bgm''])
                  | Inr bgm_opened \<Rightarrow>
                      let bgm_clip =
                            with_effects bgm_opened
                              [MultiplyVolume (bgm_volume params),
                               AudioFadeOut 3,
                               AudioLoop final_duration]
                      in Inr (CompositeAudioClip [audio_clip, bgm_clip], []))
               else Inr (audio_clip, [])))"

text \<open>
  The background track in the words of the specification (section 4.7), for
  comparison: scaled by the volume, looped to the duration of the final video, then
  faded out over the last three seconds.
\<close>

definition AudioMixer_spec_bgm :: "aclip \<Rightarrow> rat \<Rightarrow> rat \<Rightarrow> aclip" where
  "AudioMixer_spec_bgm track volume final_duration =
     with_effects track [MultiplyVolume volume, AudioLoop final_duration, AudioFadeOut 3]"

section \<open>app/services/task.py\<close>

subsection \<open>The task store and the collaborators\<close>

text \<open>
  A run of the orchestrator is observed through its trace: the calls of
  \<open>sm.state.update_task\<close> with the keyword arguments \<open>state\<close> and \<open>progress\<close> they
  carry (\<open>None\<close> for an argument that is not passed) and the names of the other keyword
  arguments, and the calls of the services that take part of the parameters.
\<close>

datatype task_state = TASK_STATE_FAILED | TASK_STATE_COMPLETE | TASK_STATE_PROCESSING

record update =
  u_state :: "task_state option"
  u_progress :: "rat option"
  u_fields :: "string list"

datatype event =
    UpdateTask update
  | SaveScriptData
  | PreprocessVideo
  | DownloadVideos VideoConcatMode rat
  | CombineVideos nat VideoConcatMode "VideoTransitionMode option"
  | GenerateVideo nat

definition set_state :: "task_state \<Rightarrow> event" where
  "set_state s = UpdateTask \<lparr>u_state = Some s, u_progress = None, u_fields = []\<rparr>"

definition set_state_progress :: "task_state \<Rightarrow> rat \<Rightarrow> string list \<Rightarrow> event" where
  "set_state_progress s p names =
     UpdateTask \<lparr>u_state = Some s, u_progress = Some p, u_fields = names\<rparr>"

definition set_progress :: "rat \<Rightarrow> event" where
  "set_progress p = UpdateTask \<lparr>u_state = None, u_progress = Some p, u_fields = []\<rparr>"

text \<open>
  What the collaborators answer in one run: the script and the terms of the language
  model (\<open>None\<close> for Python's \<open>None\<close>), whether speech synthesis returned a subtitle
  maker, the duration of the audio, whether the subtitle file holds any line, the
  materials that preprocessing keeps, the downloaded videos, and for each output index
  whether \<open>video.combine_videos\<close> and \<open>video.generate_video\<close> raise. A call that
  does not return leaves the trace as a call that raises does.
\<close>

record services =
  svc_generate_script :: "string option"
  svc_generate_terms :: "string list option"
  svc_tts_ok :: bool
  svc_audio_duration :: rat
  svc_subtitle_lines :: bool
  svc_preprocess_video :: "MaterialInfo list"
  svc_download_videos :: "string list option"
  svc_combine_videos :: "nat \<Rightarrow> py_error option"
  svc_generate_video :: "nat \<Rightarrow> py_error option"

text \<open>
  Modelled from the spec: the task store \<open>app/services/state.py\<close> is not among the
  sources. Section 6 gives \<open>update(task_id, partial fields)\<close>: an update writes the
  fields it carries and leaves the others.
\<close>

record task =
  t_state :: "task_state option"
  t_progress :: rat

definition update_task :: "update \<Rightarrow> task \<Rightarrow> task" where
  "update_task u t =
     \<lparr>t_state = (case u_state u of None \<Rightarrow> t_state t | Some s \<Rightarrow> Some s),
      t_progress = (case u_progress u of None \<Rightarrow> t_progress t | Some p \<Rightarrow> p)\<rparr>"



subsection \<open>The stages\<close>

text \<open>\<open>needle in haystack\<close> on strings.\<close>

fun contains :: "string \<Rightarrow> string \<Rightarrow> bool" where
  "contains needle [] = (needle = [])"
| "contains needle (c # cs) = (take (length needle) (c # cs) = needle \<or> contains needle cs)"

text \<open>\<open>re.split(r"[,\<dots>]", s)\<close>: at the comma and at the full-width comma (in UTF-8).\<close>

fun re_split_commas :: "string \<Rightarrow> string list" where
  "re_split_commas [] = [[]]"
| "re_split_commas (c # cs) =
     (if c = CHR '','' then [] # re_split_commas cs
      else if c = CHR 0xEF \<and> take 2 cs = [CHR 0xBC, CHR 0x8C] then
        [] # re_split_commas (drop 2 cs)
      else (case re_split_commas cs of
              [] \<Rightarrow> [[c]]
            | w # ws \<Rightarrow> (c # w) # ws))"

definition generate_script ::
  "services \<Rightarrow> VideoParams \<Rightarrow> event list \<Rightarrow> string option \<times> event list" where
  "generate_script svc params trace =
     (let stripped = strip (video_script params);
          script = (if stripped = [] then svc_generate_script svc else Some stripped)
      in if \<not> truthy script then (None, trace @ [set_state TASK_STATE_FAILED])
         else (script, trace))"

definition generate_terms ::
  "services \<Rightarrow> VideoParams \<Rightarrow> event list \<Rightarrow> string list option \<times> event list" where
  "generate_terms svc params trace =
     (let terms =
            (case video_terms params of
               TermsNone \<Rightarrow> svc_generate_terms svc
             | TermsStr s \<Rightarrow>
                 if s = [] then svc_generate_terms svc
                 else Some (map strip (re_split_commas s))
             | TermsList l \<Rightarrow>
                 if l = [] then svc_generate_terms svc else Some (map strip l))
      in if terms = None \<or> terms = Some [] then (None, trace @ [set_state TASK_STATE_FAILED])
         else (terms, trace))"

definition generate_audio ::
  "services \<Rightarrow> VideoParams \<Rightarrow> event list \<Rightarrow> (string \<times> rat) option \<times> event list" where
  "generate_audio svc params trace =
     (if \<not> svc_tts_ok svc then (None, trace @ [set_state TASK_STATE_FAILED])
      else (Some (''audio.mp3'', of_int \<lceil>svc_audio_duration svc\<rceil>), trace))"

definition generate_subtitle :: "services \<Rightarrow> VideoParams \<Rightarrow> string" where
  "generate_subtitle svc params =
     (if \<not> subtitle_enabled params then []
      else if \<not> svc_subtitle_lines svc then []
      else ''subtitle.srt'')"

definition get_video_materials ::
  "services \<Rightarrow> VideoParams \<Rightarrow> rat \<Rightarrow> event list \<Rightarrow> string list option \<times> event list" where
  "get_video_materials svc params audio_duration trace =
     (if video_source params = ''local'' then
        let materials = svc_preprocess_video svc;
            trace1 = trace @ [PreprocessVideo]
        in if materials = [] then (None, trace1 @ [set_state TASK_STATE_FAILED])
           else (Some (map url materials), trace1)
      else
        let downloaded_videos = svc_download_videos svc;
            trace1 = trace @ [DownloadVideos (video_concat_mode params)
                            (audio_duration * of_int (video_count params))]
        in if downloaded_videos = None \<or> downloaded_videos = Some [] then
             (None, trace1 @ [set_state TASK_STATE_FAILED])
           else (downloaded_videos, trace1))"

text \<open>
  The loop \<open>for i in range(params.video_count)\<close> of \<open>generate_final_videos\<close>: the
  state is the progress, the indices of the final and of the combined videos written,
  and the trace. An exception of a video service ends the run. The progress is a
  float from the first \<open>_progress += 50 / params.video_count / 2\<close> on: the quotient of
  the two integers, its half and the sum are rounded each.
\<close>

fun final_videos_loop ::
  "services \<Rightarrow> VideoParams \<Rightarrow> VideoConcatMode \<Rightarrow> nat list \<Rightarrow> rat \<Rightarrow> nat list \<Rightarrow> nat list
     \<Rightarrow> event list \<Rightarrow> (py_error + nat list \<times> nat list) \<times> event list"
where
  "final_videos_loop svc params mode [] progress finals combineds trace =
     (Inr (finals, combineds), trace)"
| "final_videos_loop svc params mode (i # rest) progress finals combineds trace =
     (let index = i + 1;
          trace1 = trace @ [CombineVideos index mode (video_transition_mode params)]
      in case svc_combine_videos svc index of
           Some e \<Rightarrow> (Inl e, trace1)
         | None \<Rightarrow>
             let progress1 =
                   double_round
                     (progress + double_round (double_round (50 / of_int (video_count params)) / 2));
                 trace2 = trace1 @ [set_progress progress1, GenerateVideo index]
             in (case svc_generate_video svc index of
                   Some e \<Rightarrow> (Inl e, trace2)
                 | None \<Rightarrow>
                     let progress2 =
                           double_round
                             (progress1 +
                              double_round (double_round (50 / of_int (video_count params)) / 2));
                         trace3 = trace2 @ [set_progress progress2]
                     in final_videos_loop svc params mode rest progress2
                          (finals @ [index]) (combineds @ [index]) trace3))"

definition generate_final_videos ::
  "services \<Rightarrow> VideoParams \<Rightarrow> event list \<Rightarrow> (py_error + nat list \<times> nat list) \<times> event list"
where
  "generate_final_videos svc params trace =
     (let mode = (if video_count params = 1 then video_concat_mode params else random)
      in final_videos_loop svc params mode [0 ..< nat (video_count params)] 50 [] [] trace)"

text \<open>
  \<open>start\<close>: the result is the exception that ended the run, or what \<open>start\<close> returns
  (\<open>None\<close>, or the keys of the dictionary), together with the trace of the run.
  The concat mode of the parameters is a member of the enumeration already, so the
  conversion from a string at the head of \<open>start\<close> changes nothing.
\<close>

definition start ::
  "services \<Rightarrow> VideoParams \<Rightarrow> string \<Rightarrow> (py_error + string list option) \<times> event list"
where
  "start svc params stop_at =
     (let trace0 = [set_state_progress TASK_STATE_PROCESSING 5 []] in
      (case generate_script svc params trace0 of (script, trace1) \<Rightarrow>
      (if \<not> truthy script \<or> contains ''Error: '' (the script) then
        (Inr None, trace1 @ [set_state TASK_STATE_FAILED])
      else
      (let trace2 = trace1 @ [set_state_progress TASK_STATE_PROCESSING 10 []] in
      (if stop_at = ''script'' then
        (Inr (Some [''script'']),
         trace2 @ [set_state_progress TASK_STATE_COMPLETE 100 [''script'']])
      else
      (case (if video_source params \<noteq> ''local'' then generate_terms svc params trace2
             else (Some [], trace2)) of (terms, trace3) \<Rightarrow>
      (if video_source params \<noteq> ''local'' \<and> terms = None then
        (Inr None, trace3 @ [set_state TASK_STATE_FAILED])
      else
      (let trace4 = trace3 @ [SaveScriptData] in
      (if stop_at = ''terms'' then
        (Inr (Some [''script'', ''terms'']),
         trace4 @ [set_state_progress TASK_STATE_COMPLETE 100 [''terms'']])
      else
      (let trace5 = trace4 @ [set_state_progress TASK_STATE_PROCESSING 20 []] in
      (case generate_audio svc params trace5 of
         (None, trace6) \<Rightarrow> (Inr None, trace6 @ [set_state TASK_STATE_FAILED])
       | (Some (audio_file, audio_duration), trace6) \<Rightarrow>
      (let trace7 = trace6 @ [set_state_progress TASK_STATE_PROCESSING 30 []] in
      (if stop_at = ''audio'' then
        (Inr (Some [''audio_file'', ''audio_duration'']),
         trace7 @ [set_state_progress TASK_STATE_COMPLETE 100 [''audio_file'']])
      else
      (let subtitle_path = generate_subtitle svc params in
      (if stop_at = ''subtitle'' then
        (Inr (Some [''subtitle_path'']),
         trace7 @ [set_state_progress TASK_STATE_COMPLETE 100 [''subtitle_path'']])
      else
      (let trace8 = trace7 @ [set_state_progress TASK_STATE_PROCESSING 40 []] in
      (case get_video_materials svc params audio_duration trace8 of
         (downloaded_videos, trace9) \<Rightarrow>
      (if downloaded_videos = None \<or> downloaded_videos = Some [] then
        (Inr None, trace9 @ [set_state TASK_STATE_FAILED])
      else
      (if stop_at = ''materials'' then
        (Inr (Some [''materials'']),
         trace9 @ [set_state_progress TASK_STATE_COMPLETE 100 [''materials'']])
      else
      (let trace10 = trace9 @ [set_state_progress TASK_STATE_PROCESSING 50 []] in
      (case generate_final_videos svc params trace10 of
         (Inl e, trace11) \<Rightarrow> (Inl e, trace11)
       | (Inr (final_video_paths, combined_video_paths), trace11) \<Rightarrow>
          (if final_video_paths = [] then
             (Inr None, trace11 @ [set_state TASK_STATE_FAILED])
           else
             (Inr (Some [''videos'', ''combined_videos'', ''script'', ''terms'',
                         ''audio_file'', ''audio_duration'', ''subtitle_path'',
                         ''materials'']),
              trace11 @ [set_state_progress TASK_STATE_COMPLETE 100
                           [''videos'', ''combined_videos'', ''script'', ''terms'',
                            ''audio_file'', ''audio_duration'', ''subtitle_path'',
                            ''materials'']])))))))))))))))))))))))"

text \<open>Every clip of the list has a frame height that is not zero.\<close>

definition positive_heights :: "vclip list \<Rightarrow> bool" where
  "positive_heights cs = (\<forall>c \<in> set cs. 0 < snd (size_of c))"

subsection \<open>What a run may write\<close>

text \<open>
  Predicates on the trace of a run. \<open>update_ok\<close> is the condition on one call of
  \<open>update_task\<close>: the progress 100 comes with the state Complete or with no state,
  the state Failed comes with no progress, a progress is not negative, and a progress
  that comes with a state is at most 100. \<open>task_ok t t'\<close> is the condition on the task
  \<open>t\<close> before a call and the task \<open>t'\<close> after it: no call follows the one that made
  the task Complete, the progress does not decrease unless the call makes the task
  Complete, and a Failed task is below the progress 100. \<open>trace_ok\<close> checks both along
  a trace, \<open>task_after\<close> is the task at its end. \<open>event_ok\<close> is the condition on the
  concat mode that the calls of the video services observe, and \<open>loop_event\<close> the
  condition on the events of the loop over the outputs.
\<close>

definition update_ok :: "update \<Rightarrow> bool" where
  "update_ok u =
     ((u_progress u = Some 100 \<longrightarrow> u_state u = Some TASK_STATE_COMPLETE \<or> u_state u = None) \<and>
      (u_state u = Some TASK_STATE_FAILED \<longrightarrow> u_progress u = None) \<and>
      (case u_progress u of
         None \<Rightarrow> True
       | Some q \<Rightarrow> 0 \<le> q \<and> (u_state u \<noteq> None \<longrightarrow> q \<le> 100)))"

definition task_ok :: "task \<Rightarrow> task \<Rightarrow> bool" where
  "task_ok t t' =
     (t_state t \<noteq> Some TASK_STATE_COMPLETE \<and>
      (t_state t' \<noteq> Some TASK_STATE_COMPLETE \<longrightarrow> t_progress t \<le> t_progress t') \<and>
      (t_state t' = Some TASK_STATE_FAILED \<longrightarrow> t_progress t' < 100))"

fun trace_ok :: "task \<Rightarrow> event list \<Rightarrow> bool" where
  "trace_ok t [] = True"
| "trace_ok t (UpdateTask u # evs) =
     (update_ok u \<and> task_ok t (update_task u t) \<and> trace_ok (update_task u t) evs)"
| "trace_ok t (ev # evs) = trace_ok t evs"

fun task_after :: "task \<Rightarrow> event list \<Rightarrow> task" where
  "task_after t [] = t"
| "task_after t (UpdateTask u # evs) = task_after (update_task u t) evs"
| "task_after t (ev # evs) = task_after t evs"

definition expected_mode :: "VideoParams \<Rightarrow> VideoConcatMode" where
  "expected_mode params = (if video_count params = 1 then video_concat_mode params else random)"

fun event_ok :: "VideoParams \<Rightarrow> event \<Rightarrow> bool" where
  "event_ok params (DownloadVideos m a) = (m = video_concat_mode params)"
| "event_ok params (CombineVideos i m t) =
     (m = expected_mode params \<and> t = video_transition_mode params)"
| "event_ok params ev = True"

definition loop_event :: "VideoParams \<Rightarrow> VideoConcatMode \<Rightarrow> event \<Rightarrow> bool" where
  "loop_event params mode ev =
     (case ev of
        UpdateTask u \<Rightarrow> u_state u = None \<and> u_progress u \<noteq> None
      | DownloadVideos m a \<Rightarrow> False
      | CombineVideos i m t \<Rightarrow> m = mode \<and> t = video_transition_mode params
      | _ \<Rightarrow> True)"

definition run_ok :: "VideoParams \<Rightarrow> event list \<Rightarrow> bool" where
  "run_ok params tr =
     (trace_ok \<lparr>t_state = None, t_progress = 0\<rparr> tr \<and> list_all (event_ok params) tr)"

section \<open>Concrete inputs\<close>

text \<open>A font whose glyphs all advance by ten pixels, with lines twelve pixels high.\<close>

definition mono10 :: font where
  "mono10 s = (0, 0, 10 * int (length s), 12)"

text \<open>
  Audio on a host: a voice track of 25 seconds and a song of 10 seconds at the constant
  level 1. \<open>host_with_song\<close> has the song at a path of its own; \<open>host_no_songs\<close> has
  an empty song directory.
\<close>

definition voice_25s :: aclip where
  "voice_25s = AudioFileClip ''audio.mp3'' 25 (\<lambda>t. 0)"

definition song_10s :: aclip where
  "song_10s = AudioFileClip ''song.mp3'' 10 (\<lambda>t. 1)"

definition host_with_song :: host where
  "host_with_song =
     \<lparr>path_exists = (\<lambda>p. p = ''song.mp3''),
      song_files = [],
      audio_files = (\<lambda>p. if p = ''audio.mp3'' then Some (25, \<lambda>t. 0)
                         else if p = ''song.mp3'' then Some (10, \<lambda>t. 1) else None)\<rparr>"

definition host_no_songs :: host where
  "host_no_songs =
     \<lparr>path_exists = (\<lambda>p. False),
      song_files = [],
      audio_files = (\<lambda>p. if p = ''audio.mp3'' then Some (25, \<lambda>t. 0) else None)\<rparr>"

text \<open>The defaults of \<open>VideoParams\<close>, for the subject \<open>demo\<close>.\<close>

definition default_params :: VideoParams where
  "default_params =
     \<lparr>video_subject = ''demo'', video_script = [], video_terms = TermsNone,
      video_aspect = portrait, video_concat_mode = random, video_transition_mode = None,
      video_clip_duration = 5, video_count = 1, video_source = ''pexels'',
      video_materials = [], video_language = [], voice_name = [], voice_volume = 1,
      voice_rate = 1, bgm_type = Some ''random'', bgm_file = Some [], bgm_volume = 1 / 5,
      subtitle_enabled = True, n_threads = 2, paragraph_number = 1\<rparr>"

text \<open>The defaults with the song chosen as background music, at full volume.\<close>

definition song_params :: VideoParams where
  "song_params = default_params\<lparr>bgm_file := Some ''song.mp3'', bgm_volume := 1\<rparr>"

text \<open>
  A run in which every collaborator succeeds, the request for two videos in
  sequential mode, the request for one video and the request for six videos.
\<close>

definition all_fine :: services where
  "all_fine = \<lparr>svc_generate_script = Some ''a script'', svc_generate_terms = Some [''sky''],
     svc_tts_ok = True, svc_audio_duration = 13 / 2, svc_subtitle_lines = True,
     svc_preprocess_video = [], svc_download_videos = Some [''a.mp4''],
     svc_combine_videos = (\<lambda>i. None), svc_generate_video = (\<lambda>i. None)\<rparr>"

definition two_sequential :: VideoParams where
  "two_sequential = default_params\<lparr>video_concat_mode := sequential, video_count := 2,
      video_transition_mode := Some none\<rparr>"



text \<open>
  Media used to run the definitions: every file of \<open>media_5s\<close> is a portrait clip
  of five seconds at the output size, every file of \<open>media_0s\<close> reports the
  duration zero, and \<open>media_10s_landscape\<close> holds landscape clips of ten seconds.
\<close>

definition media_5s :: "string \<Rightarrow> rat \<times> nat \<times> nat" where
  "media_5s path = (5, 1080, 1920)"

definition media_0s :: "string \<Rightarrow> rat \<times> nat \<times> nat" where
  "media_0s path = (0, 1080, 1920)"

definition media_10s_landscape :: "string \<Rightarrow> rat \<times> nat \<times> nat" where
  "media_10s_landscape path = (10, 1920, 1080)"

section \<open>Properties\<close>

subsection \<open>Rounding to a double\<close>

lemma halvings_bounds:
  "1 \<le> x \<Longrightarrow> 2 ^ halvings x \<le> x \<and> x < 2 ^ Suc (halvings x)"
proof (induction x rule: halvings.induct)
  case (1 x)
  show ?case
  proof (cases "2 \<le> x")
    case True
    then have h: "halvings x = Suc (halvings (x / 2))" by (subst halvings.simps) simp
    from True have "1 \<le> x / 2" by simp
    from "1.IH" [OF True this] show ?thesis unfolding h by (simp add: field_simps)
  next
    case False
    then have "halvings x = 0" by (subst halvings.simps) simp
    with False "1.prems" show ?thesis by simp
  qed
qed

lemma doublings_bounds:
  "0 < x \<Longrightarrow> x < 1 \<Longrightarrow> 1 \<le> x * 2 ^ doublings x \<and> x * 2 ^ doublings x < 2"
proof (induction x rule: doublings.induct)
  case (1 x)
  from "1.prems" have c: "0 < x \<and> x < 1" by simp
  then have d: "doublings x = Suc (doublings (2 * x))" by (subst doublings.simps) simp
  show ?case
  proof (cases "2 * x < 1")
    case True
    from "1.IH" [OF c _ True] c show ?thesis unfolding d by (simp add: mult.assoc mult.commute)
  next
    case False
    then have "doublings (2 * x) = 0" by (subst doublings.simps) simp
    with False c show ?thesis unfolding d by simp
  qed
qed

lemma binade_bounds:
  assumes "0 < x"
  shows "2 powi binade x \<le> x \<and> x < 2 powi (binade x + 1)"
proof (cases "1 \<le> x")
  case True
  from halvings_bounds [OF True] have "2 powi int (halvings x) \<le> x"
    and "x < 2 powi int (Suc (halvings x))"
    unfolding power_int_of_nat by simp_all
  with True show ?thesis by (simp add: binade_def add.commute)
next
  case False
  then have x1: "x < 1" by simp
  let ?d = "doublings x"
  from doublings_bounds [OF assms x1] have b: "1 \<le> x * 2 ^ ?d" "x * 2 ^ ?d < 2" by simp_all
  have p: "(2 :: rat) powi (- int ?d) = 1 / 2 ^ ?d"
    by (simp add: power_int_minus_divide)
  have q: "(2 :: rat) powi (- int ?d + 1) = 2 / 2 ^ ?d"
    by (subst power_int_add) (simp_all add: power_int_minus_divide)
  from b have "1 / 2 ^ ?d \<le> x" "x < 2 / 2 ^ ?d" by (simp_all add: field_simps)
  then have "2 powi (- int ?d) \<le> x \<and> x < 2 powi (- int ?d + 1)"
    unfolding p q by (rule conjI)
  moreover have "binade x = - int ?d" using False by (simp only: binade_def if_False)
  ultimately show ?thesis by (simp only:)
qed

lemma binade_unique:
  assumes "0 < x" "2 powi k \<le> x" "x < 2 powi (k + 1)"
  shows "binade x = k"
proof -
  note b = binade_bounds [OF assms(1)]
  have "\<not> binade x + 1 \<le> k"
  proof
    assume "binade x + 1 \<le> k"
    then have "(2 :: rat) powi (binade x + 1) \<le> 2 powi k" by (intro power_int_increasing) simp_all
    with b assms(2) show False by linarith
  qed
  moreover have "\<not> k + 1 \<le> binade x"
  proof
    assume "k + 1 \<le> binade x"
    then have "(2 :: rat) powi (k + 1) \<le> 2 powi binade x" by (intro power_int_increasing) simp_all
    with b assms(3) show False by linarith
  qed
  ultimately show ?thesis by linarith
qed

lemma round_half_even_near:
  assumes "\<bar>z - of_int m\<bar> < 1 / 2"
  shows "round_half_even z = m"
proof (cases "of_int m \<le> z")
  case True
  with assms have "\<lfloor>z\<rfloor> = m" by (intro floor_unique) linarith+
  with True assms show ?thesis by (simp add: round_half_even_def Let_def)
next
  case False
  have "of_int (m - 1) \<le> z" using False assms by simp
  moreover have "z < of_int (m - 1) + 1" using False by simp
  ultimately have "of_int (m - 1) \<le> z" "z < of_int (m - 1) + 1" by simp_all
  then have f: "\<lfloor>z\<rfloor> = m - 1" by (intro floor_unique)
  have "1 / 2 < z - of_int (m - 1)" using False assms by simp
  with f show ?thesis by (simp add: round_half_even_def Let_def)
qed

lemma double_round_certificate:
  assumes "0 < x" "2 powi (e + 52) \<le> x" "x < 2 powi (e + 53)" "- 1074 \<le> e"
    and "\<bar>x / 2 powi e - of_int m\<bar> < 1 / 2"
  shows "double_round x = of_int m * 2 powi e"
proof -
  have "binade x = e + 52" using assms(1,2,3) by (intro binade_unique) (simp_all add: add.assoc)
  with assms(4) have m: "expo x = e" by (simp add: expo_def)
  from assms(1) have x: "\<bar>x\<bar> = x" "x \<noteq> 0" "\<not> x < 0" by simp_all
  show ?thesis
    unfolding double_round_def Let_def x m round_half_even_near [OF assms(5)]
    by (simp only: x if_False)
qed

lemma round_half_even_of_int: "round_half_even (of_int n) = n"
  by (rule round_half_even_near) simp

lemma round_half_even_mono:
  assumes "z \<le> z'"
  shows "round_half_even z \<le> round_half_even z'"
proof (cases "\<lfloor>z\<rfloor> = \<lfloor>z'\<rfloor>")
  case True
  with assms show ?thesis by (auto simp: round_half_even_def Let_def)
next
  case False
  with floor_mono [OF assms] have "\<lfloor>z\<rfloor> + 1 \<le> \<lfloor>z'\<rfloor>" by linarith
  moreover have "round_half_even z \<le> \<lfloor>z\<rfloor> + 1" by (simp add: round_half_even_def Let_def)
  moreover have "\<lfloor>z'\<rfloor> \<le> round_half_even z'" by (simp add: round_half_even_def Let_def)
  ultimately show ?thesis by linarith
qed

lemma binade_mono:
  assumes "0 < x" "x \<le> y"
  shows "binade x \<le> binade y"
proof (rule ccontr)
  assume "\<not> binade x \<le> binade y"
  then have "binade y + 1 \<le> binade x" by simp
  then have "(2 :: rat) powi (binade y + 1) \<le> 2 powi binade x"
    by (intro power_int_increasing) simp_all
  moreover from assms have "0 < y" by simp
  ultimately show False using binade_bounds [OF assms(1)] binade_bounds [OF \<open>0 < y\<close>] assms(2)
    by linarith
qed

lemma double_round_pos:
  "0 < x \<Longrightarrow> double_round x = of_int (round_half_even (x / 2 powi expo x)) * 2 powi expo x"
  by (simp add: double_round_def Let_def)

lemma scaled_upper:
  assumes "0 < x"
  shows "x / 2 powi expo x < 2 ^ 53"
proof -
  have "binade x + 1 \<le> expo x + 53" by (simp add: expo_def)
  then have "(2 :: rat) powi (binade x + 1) \<le> 2 powi (expo x + 53)"
    by (intro power_int_increasing) simp_all
  with binade_bounds [OF assms] have "x < 2 powi (expo x + 53)" by linarith
  also have "\<dots> = 2 powi expo x * 2 ^ 53" by (simp add: power_int_add)
  finally show ?thesis by (simp add: field_simps)
qed

lemma scaled_lower:
  assumes "0 < x" "expo x \<noteq> - 1074"
  shows "2 ^ 52 \<le> x / 2 powi expo x"
proof -
  from assms(2) have e: "binade x = expo x + 52" by (simp add: expo_def max_def split: if_splits)
  have "(2 :: rat) powi (expo x + 52) = 2 powi expo x * 2 ^ 52" by (simp add: power_int_add)
  with binade_bounds [OF assms(1)] e have "2 powi expo x * 2 ^ 52 \<le> x" by simp
  then show ?thesis by (simp add: field_simps)
qed

lemma mantissa_bounds:
  assumes "0 < x"
  shows "0 \<le> round_half_even (x / 2 powi expo x)"
    and "round_half_even (x / 2 powi expo x) \<le> 2 ^ 53"
    and "expo x \<noteq> - 1074 \<Longrightarrow> 2 ^ 52 \<le> round_half_even (x / 2 powi expo x)"
proof -
  let ?z = "x / 2 powi expo x"
  have "0 \<le> ?z" using assms by simp
  from round_half_even_mono [of "of_int 0" ?z] this show "0 \<le> round_half_even ?z"
    unfolding round_half_even_of_int by simp
  have "?z \<le> of_int (2 ^ 53)" using scaled_upper [OF assms] by simp
  from round_half_even_mono [OF this] show "round_half_even ?z \<le> 2 ^ 53"
    unfolding round_half_even_of_int .
  assume "expo x \<noteq> - 1074"
  from scaled_lower [OF assms this] have "of_int (2 ^ 52) \<le> ?z" by simp
  from round_half_even_mono [OF this] show "2 ^ 52 \<le> round_half_even ?z"
    unfolding round_half_even_of_int .
qed

lemma double_round_nonneg: "0 \<le> x \<Longrightarrow> 0 \<le> double_round x"
proof (cases "x = 0")
  case True
  then show ?thesis by (simp add: double_round_def)
next
  case False
  assume "0 \<le> x"
  with False have x: "0 < x" by simp
  from mantissa_bounds(1) [OF x] show ?thesis unfolding double_round_pos [OF x] by simp
qed

lemma expo_ge: "- 1074 \<le> expo x"
  by (simp add: expo_def)

lemma double_round_fix:
  assumes "0 < m" "m \<le> 2 ^ 53" "- 1074 \<le> e" "2 ^ 52 \<le> m \<or> e = - 1074"
  shows "double_round (of_int m * 2 powi e) = of_int m * 2 powi e"
proof -
  let ?v = "of_int m * (2 :: rat) powi e"
  have v: "0 < ?v" using assms(1) by simp
  have up: "(2 :: rat) powi (e + 53) = 2 ^ 53 * 2 powi e" by (simp add: power_int_add)
  have lo: "(2 :: rat) powi (e + 52) = 2 ^ 52 * 2 powi e" by (simp add: power_int_add)
  show ?thesis
  proof (cases "m = 2 ^ 53")
    case True
    have "(2 :: rat) powi (e + 1 + 52) = 2 ^ 53 * 2 powi e" using up by (simp add: add.commute add.left_commute)
    then have a: "2 powi (e + 1 + 52) \<le> ?v" using True by simp
    have "(2 :: rat) powi (e + 1 + 53) = 2 * (2 ^ 53 * 2 powi e)"
      by (simp add: power_int_add)
    then have b: "?v < 2 powi (e + 1 + 53)" using True by simp
    have c: "- 1074 \<le> e + 1" using assms(3) by simp
    have "(2 :: rat) powi (e + 1) = 2 * 2 powi e" by (simp add: power_int_add)
    then have "?v / 2 powi (e + 1) = of_int (2 ^ 52)" using True by simp
    then have d: "\<bar>?v / 2 powi (e + 1) - of_int (2 ^ 52)\<bar> < 1 / 2" by simp
    from double_round_certificate [OF v a b c d]
    have "double_round ?v = of_int (2 ^ 52) * 2 powi (e + 1)" .
    also have "\<dots> = ?v" using True by (simp add: power_int_add)
    finally show ?thesis .
  next
    case False
    with assms(2) have lt: "m < 2 ^ 53" by simp
    then have "(of_int m :: rat) < 2 ^ 53" by (metis of_int_less_numeral_power_cancel_iff)
    then have b: "?v < 2 powi (e + 53)" unfolding up by simp
    have ex: "expo ?v = e"
    proof (cases "2 ^ 52 \<le> m")
      case True
      then have "(2 :: rat) ^ 52 \<le> of_int m" by (metis numeral_power_le_of_int_cancel_iff)
      then have a: "2 powi (e + 52) \<le> ?v" unfolding lo by simp
      have "binade ?v = e + 52" using v a b by (intro binade_unique) (simp_all add: add.assoc)
      with assms(3) show ?thesis by (simp add: expo_def)
    next
      case F: False
      with assms(4) have e: "e = - 1074" by simp
      from F have "(of_int m :: rat) < 2 ^ 52" by (metis not_le of_int_less_numeral_power_cancel_iff)
      then have s: "?v < 2 powi (e + 52)" unfolding lo by simp
      have "\<not> e + 52 \<le> binade ?v"
      proof
        assume "e + 52 \<le> binade ?v"
        then have "(2 :: rat) powi (e + 52) \<le> 2 powi binade ?v"
          by (intro power_int_increasing) simp_all
        with binade_bounds [OF v] s show False by linarith
      qed
      then show ?thesis unfolding expo_def e by simp
    qed
    have "?v / 2 powi e = of_int m" by simp
    then show ?thesis unfolding double_round_pos [OF v] ex by (simp only: round_half_even_of_int)
  qed
qed

lemma double_round_idem:
  assumes "0 \<le> x"
  shows "double_round (double_round x) = double_round x"
proof (cases "x = 0")
  case True
  then show ?thesis by (simp add: double_round_def)
next
  case False
  with assms have x: "0 < x" by simp
  let ?m = "round_half_even (x / 2 powi expo x)"
  note mb = mantissa_bounds [OF x]
  show ?thesis
  proof (cases "?m = 0")
    case True
    then show ?thesis unfolding double_round_pos [OF x] by (simp add: double_round_def)
  next
    case False
    with mb(1) have "0 < ?m" by simp
    moreover have "2 ^ 52 \<le> ?m \<or> expo x = - 1074" using mb(3) by blast
    ultimately show ?thesis
      unfolding double_round_pos [OF x] using mb(2) expo_ge [of x]
      by (intro double_round_fix)
  qed
qed

lemma expo_mono:
  assumes "0 < x" "x \<le> y"
  shows "expo x \<le> expo y"
  using binade_mono [OF assms] by (simp add: expo_def)

lemma double_round_mono:
  assumes "0 \<le> x" "x \<le> y"
  shows "double_round x \<le> double_round y"
proof (cases "x = 0")
  case True
  with assms double_round_nonneg [of y] show ?thesis by (simp add: double_round_def)
next
  case False
  with assms have x: "0 < x" and y: "0 < y" by simp_all
  show ?thesis
  proof (cases "expo x = expo y")
    case True
    from assms(2) have "x / 2 powi expo y \<le> y / 2 powi expo y"
      by (simp add: divide_right_mono)
    from round_half_even_mono [OF this]
    have "(of_int (round_half_even (x / 2 powi expo y)) :: rat)
            \<le> of_int (round_half_even (y / 2 powi expo y))" by simp
    then show ?thesis unfolding double_round_pos [OF x] double_round_pos [OF y] True
      by (simp add: mult_right_mono)
  next
    case False
    with expo_mono [OF x assms(2)] have lt: "expo x + 1 \<le> expo y" by simp
    with expo_ge [of x] have ne: "expo y \<noteq> - 1074" by simp
    have "(of_int (round_half_even (x / 2 powi expo x)) :: rat) \<le> of_int (2 ^ 53)"
      using mantissa_bounds(2) [OF x] by (simp only: of_int_le_iff)
    then have "double_round x \<le> 2 ^ 53 * 2 powi expo x"
      unfolding double_round_pos [OF x] by (simp add: mult_right_mono)
    also have "\<dots> = 2 ^ 52 * 2 powi (expo x + 1)" by (simp add: power_int_add)
    also have "\<dots> \<le> 2 ^ 52 * 2 powi expo y"
      using lt by (intro mult_left_mono power_int_increasing) simp_all
    also have "\<dots> \<le> double_round y"
    proof -
      have "(of_int (2 ^ 52) :: rat) \<le> of_int (round_half_even (y / 2 powi expo y))"
        using mantissa_bounds(3) [OF y ne] by (simp only: of_int_le_iff)
      then show ?thesis unfolding double_round_pos [OF y] by (simp add: mult_right_mono)
    qed
    finally show ?thesis .
  qed
qed

text \<open>
  The error of a rounding is at most half the unit in the last place, so two numbers
  below 2 that are \<open>2 ^ -31\<close> apart have different doubles, in the same order.
\<close>

lemma round_half_even_error: "\<bar>of_int (round_half_even z) - z\<bar> \<le> 1 / 2"
proof -
  have "of_int \<lfloor>z\<rfloor> \<le> z" "z < of_int \<lfloor>z\<rfloor> + 1" by linarith+
  then show ?thesis by (auto simp: round_half_even_def Let_def)
qed

lemma double_round_error:
  assumes "0 < x"
  shows "\<bar>double_round x - x\<bar> \<le> 2 powi expo x / 2"
proof -
  let ?p = "(2 :: rat) powi expo x"
  have p: "0 < ?p" by simp
  have "double_round x - x = (of_int (round_half_even (x / ?p)) - x / ?p) * ?p"
    unfolding double_round_pos [OF assms] using p by (simp add: algebra_simps)
  then have "\<bar>double_round x - x\<bar> = \<bar>of_int (round_half_even (x / ?p)) - x / ?p\<bar> * ?p"
    using p by (simp add: abs_mult)
  also have "\<dots> \<le> 1 / 2 * ?p"
    by (intro mult_right_mono round_half_even_error) simp
  finally show ?thesis by simp
qed

lemma expo_below_2:
  assumes "0 < x" "x < 2"
  shows "expo x \<le> - 52"
proof -
  have "\<not> 1 \<le> binade x"
  proof
    assume "1 \<le> binade x"
    then have "(2 :: rat) powi 1 \<le> 2 powi binade x" by (intro power_int_increasing) simp_all
    with binade_bounds [OF assms(1)] assms(2) show False by simp
  qed
  then show ?thesis by (simp add: expo_def)
qed

lemma double_round_near:
  assumes "0 < x" "x < 2"
  shows "\<bar>double_round x - x\<bar> \<le> 1 / 2 ^ 53"
proof -
  have "(2 :: rat) powi expo x \<le> 2 powi (- 52)"
    using expo_below_2 [OF assms] by (intro power_int_increasing) simp_all
  also have "\<dots> = 1 / 2 ^ 52" by (simp add: power_int_minus_divide)
  finally have "(2 :: rat) powi expo x / 2 \<le> 1 / 2 ^ 53" by simp
  with double_round_error [OF assms(1)] show ?thesis by linarith
qed

lemma double_round_separates:
  assumes "0 \<le> a" "a < b" "b < 2" "1 / 2 ^ 31 \<le> b - a"
  shows "double_round a < double_round b"
proof -
  from assms have b: "0 < b" by simp
  from double_round_near [OF b assms(3)] have lb: "b - 1 / 2 ^ 53 \<le> double_round b" by linarith
  show ?thesis
  proof (cases "a = 0")
    case True
    then have "double_round a = 0" by (simp add: double_round_def)
    with lb assms(4) True show ?thesis by simp
  next
    case False
    with assms(1) have a: "0 < a" by simp
    from assms(2,3) have "a < 2" by simp
    from double_round_near [OF a this] have "double_round a \<le> a + 1 / 2 ^ 53" by linarith
    with lb assms(4) show ?thesis by simp
  qed
qed

lemma ratio_gap:
  fixes a b c d :: nat
  assumes "0 < b" "0 < d" "b * d \<le> 2 ^ 31"
    and "(of_nat a :: rat) / of_nat b < of_nat c / of_nat d"
  shows "1 / 2 ^ 31 \<le> (of_nat c :: rat) / of_nat d - of_nat a / of_nat b"
proof -
  from assms(1,2,4) have "(of_nat (a * d) :: rat) < of_nat (c * b)"
    by (simp add: field_simps)
  then have "a * d < c * b" by (simp only: of_nat_less_iff)
  then have "a * d + 1 \<le> c * b" by simp
  then have "(of_nat (a * d + 1) :: rat) \<le> of_nat (c * b)" by (simp only: of_nat_le_iff)
  then have n: "(1 :: rat) \<le> of_nat c * of_nat b - of_nat a * of_nat d" by simp
  have "(of_nat (b * d) :: rat) \<le> of_nat (2 ^ 31)" using assms(3) by (simp only: of_nat_le_iff)
  then have m: "(of_nat b :: rat) * of_nat d \<le> 2 ^ 31" by simp
  have pos: "(0 :: rat) < of_nat b * of_nat d" using assms(1,2) by simp
  have "(of_nat c :: rat) / of_nat d - of_nat a / of_nat b =
          (of_nat c * of_nat b - of_nat a * of_nat d) / (of_nat b * of_nat d)"
    using assms(1,2) by (simp add: field_simps)
  also have "\<dots> \<ge> 1 / (of_nat b * of_nat d)"
    using n pos by (simp add: divide_right_mono)
  finally have "1 / (of_nat b * of_nat d) \<le> (of_nat c :: rat) / of_nat d - of_nat a / of_nat b" .
  moreover have "(1 :: rat) / 2 ^ 31 \<le> 1 / (of_nat b * of_nat d)"
    using m pos by (simp add: frac_le)
  ultimately show ?thesis by linarith
qed

lemma double_round_2: "double_round 2 = 2"
  using double_round_fix [of "2 ^ 52" "- 51"] by (simp add: power_int_minus_divide)


text \<open>The doubles that the runs below go through.\<close>

lemma double_round_50: "double_round 50 = 50"
  using double_round_certificate [of 50 "- 47" 7036874417766400]
  by (simp add: power_int_minus_divide)

lemma double_round_25: "double_round 25 = 25"
  using double_round_certificate [of 25 "- 48" 7036874417766400]
  by (simp add: power_int_minus_divide)

lemma double_round_75: "double_round 75 = 75"
  using double_round_certificate [of 75 "- 46" 5277655813324800]
  by (simp add: power_int_minus_divide)

lemma double_round_100: "double_round 100 = 100"
  using double_round_certificate [of 100 "- 46" 7036874417766400]
  by (simp add: power_int_minus_divide)

lemma double_round_25_over_2: "double_round (25 / 2) = 25 / 2"
  using double_round_certificate [of "25 / 2" "- 49" 7036874417766400]
  by (simp add: power_int_minus_divide)

lemma double_round_125_over_2: "double_round (125 / 2) = 125 / 2"
  using double_round_certificate [of "125 / 2" "- 47" 8796093022208000]
  by (simp add: power_int_minus_divide)

lemma double_round_175_over_2: "double_round (175 / 2) = 175 / 2"
  using double_round_certificate [of "175 / 2" "- 46" 6157265115545600]
  by (simp add: power_int_minus_divide)

lemma double_round_six_quotient: "double_round (25 / 3) = 4691249611844267 / 562949953421312"
  using double_round_certificate [of "25 / 3" "- 49" 4691249611844267]
  by (simp add: power_int_minus_divide)

lemma double_round_six_half: "double_round (4691249611844267 / 1125899906842624) = 4691249611844267 / 1125899906842624"
  using double_round_certificate [of "4691249611844267 / 1125899906842624" "- 50" 4691249611844267]
  by (simp add: power_int_minus_divide)

lemma double_round_six_step_1: "double_round (60986244953975467 / 1125899906842624) = 7623280619246933 / 140737488355328"
  using double_round_certificate [of "60986244953975467 / 1125899906842624" "- 47" 7623280619246933]
  by (simp add: power_int_minus_divide)

lemma double_round_six_step_2: "double_round (65677494565819731 / 1125899906842624) = 4104843410363733 / 70368744177664"
  using double_round_certificate [of "65677494565819731 / 1125899906842624" "- 47" 8209686820727466]
  by (simp add: power_int_minus_divide)

lemma double_round_six_step_3: "double_round (70368744177663995 / 1125899906842624) = 8796093022207999 / 140737488355328"
  using double_round_certificate [of "70368744177663995 / 1125899906842624" "- 47" 8796093022207999]
  by (simp add: power_int_minus_divide)

lemma double_round_six_step_4: "double_round (75059993789508259 / 1125899906842624) = 2345624805922133 / 35184372088832"
  using double_round_certificate [of "75059993789508259 / 1125899906842624" "- 46" 4691249611844266]
  by (simp add: power_int_minus_divide)

lemma double_round_six_step_5: "double_round (79751243401352523 / 1125899906842624) = 4984452712584533 / 70368744177664"
  using double_round_certificate [of "79751243401352523 / 1125899906842624" "- 46" 4984452712584533]
  by (simp add: power_int_minus_divide)

lemma double_round_six_step_6: "double_round (84442493013196795 / 1125899906842624) = 75"
  using double_round_certificate [of "84442493013196795 / 1125899906842624" "- 46" 5277655813324800]
  by (simp add: power_int_minus_divide)

lemma double_round_six_step_7: "double_round (89133742625041067 / 1125899906842624) = 5570858914065067 / 70368744177664"
  using double_round_certificate [of "89133742625041067 / 1125899906842624" "- 46" 5570858914065067]
  by (simp add: power_int_minus_divide)

lemma double_round_six_step_8: "double_round (93824992236885339 / 1125899906842624) = 2932031007402667 / 35184372088832"
  using double_round_certificate [of "93824992236885339 / 1125899906842624" "- 46" 5864062014805334]
  by (simp add: power_int_minus_divide)

lemma double_round_six_step_9: "double_round (98516241848729611 / 1125899906842624) = 6157265115545601 / 70368744177664"
  using double_round_certificate [of "98516241848729611 / 1125899906842624" "- 46" 6157265115545601]
  by (simp add: power_int_minus_divide)

lemma double_round_six_step_10: "double_round (103207491460573883 / 1125899906842624) = 1612617054071467 / 17592186044416"
  using double_round_certificate [of "103207491460573883 / 1125899906842624" "- 46" 6450468216285868]
  by (simp add: power_int_minus_divide)

lemma double_round_six_step_11: "double_round (107898741072418155 / 1125899906842624) = 6743671317026135 / 70368744177664"
  using double_round_certificate [of "107898741072418155 / 1125899906842624" "- 46" 6743671317026135]
  by (simp add: power_int_minus_divide)

lemma double_round_six_step_12: "double_round (112589990684262427 / 1125899906842624) = 3518437208883201 / 35184372088832"
  using double_round_certificate [of "112589990684262427 / 1125899906842624" "- 46" 7036874417766402]
  by (simp add: power_int_minus_divide)

lemmas double_round_values =
  double_round_50 double_round_25 double_round_75 double_round_100
  double_round_25_over_2 double_round_125_over_2 double_round_175_over_2 double_round_six_quotient
  double_round_six_half double_round_six_step_1 double_round_six_step_2 double_round_six_step_3
  double_round_six_step_4 double_round_six_step_5 double_round_six_step_6 double_round_six_step_7
  double_round_six_step_8 double_round_six_step_9 double_round_six_step_10 double_round_six_step_11
  double_round_six_step_12

subsection \<open>Subtitle position\<close>

lemma custom_y_unfold:
  "custom_y H h p = max 10 (min (of_int (H - h) * (p / 100)) (of_int (H - h - 10)))"
  by (simp add: custom_y_def Let_def)

lemma custom_y_tall_block: "H - 20 < h \<Longrightarrow> custom_y H h p = 10"
  by (simp add: custom_y_unfold)

text \<open>
  Claim C9, as stated, fails: for a text block of height 1910 on an output of height
  1920 the interval \<open>[10, H - h - 10]\<close> is \<open>[10, 0]\<close>, and the position computed for
  \<open>subtitle_position = "custom"\<close> is 10, above the upper bound 0.
\<close>

theorem custom_position_counterexample:
  "subtitle_y ''custom'' 50 1920 1910 = Pixels 10 \<and> \<not> (10 :: rat) \<le> of_int (1920 - 1910 - 10)"
  by (simp add: subtitle_y_def custom_y_unfold)

text \<open>
  Claim C9, amended: for every text block of height \<open>h\<close> with \<open>h \<le> H - 20\<close> and every
  custom percentage, the vertical position computed for
  \<open>subtitle_position = "custom"\<close> lies within \<open>[10, H - h - 10]\<close>.
\<close>

theorem custom_position_within_bounds:
  assumes "h \<le> H - 20"
  shows "\<exists>y. subtitle_y ''custom'' p H h = Pixels y \<and> 10 \<le> y \<and> y \<le> of_int (H - h - 10)"
  using assms by (simp add: subtitle_y_def custom_y_unfold)

theorem custom_position_within_bounds_witness:
  "(120 :: int) \<le> 1920 - 20 \<and>
   (\<exists>y. subtitle_y ''custom'' 70 1920 120 = Pixels y \<and> 10 \<le> y \<and> y \<le> of_int (1920 - 120 - 10))"
proof -
  have h: "(120 :: int) \<le> 1920 - 20" by simp
  from custom_position_within_bounds [OF h, of 70] h show ?thesis by blast
qed

subsection \<open>Frame normalisation\<close>

lemma to_resolution_height_pos: "0 < snd (to_resolution a)"
  by (cases a) (simp_all add: to_resolution_def)

lemma normalize_ok:
  assumes "0 < snd (size_of c)" "0 < H"
  shows "\<exists>c3. normalize W H c = Inr c3"
  using assms by (auto simp: normalize_def Let_def split: prod.splits)

text \<open>
  The three cases of the normaliser, with the ratios as the floats that the code
  compares.
\<close>

lemma normalize_cases:
  assumes "size_of clip = (w, h)" and "0 < h" and "to_resolution aspect = (W, H)"
  shows "\<exists>out. normalize W H clip = Inr out \<and> size_of out = (W, H) \<and>
           ((w, h) = (W, H) \<longrightarrow> out = clip) \<and>
           ((w, h) \<noteq> (W, H) \<and>
            double_round (of_nat w / of_nat h) = double_round (of_nat W / of_nat H) \<longrightarrow>
              out = Resized clip W H) \<and>
           ((w, h) \<noteq> (W, H) \<and>
            double_round (of_nat w / of_nat h) \<noteq> double_round (of_nat W / of_nat H) \<longrightarrow>
              (let f = (if double_round (of_nat W / of_nat H) < double_round (of_nat w / of_nat h)
                        then double_round (of_nat W / of_nat w)
                        else double_round (of_nat H / of_nat h))
               in out = CompositeVideoClip
                    [ColorClip W H (0, 0, 0) (duration_of clip),
                     WithPosition
                       (Resized clip (nat \<lfloor>double_round (double_round (of_nat w) * f)\<rfloor>)
                          (nat \<lfloor>double_round (double_round (of_nat h) * f)\<rfloor>))
                       ''center'']))"
proof -
  from assms(3) to_resolution_height_pos [of aspect] have H: "0 < H" by simp
  show ?thesis
  proof (cases "(w, h) = (W, H)")
    case True
    with assms(1) show ?thesis by (simp add: normalize_def)
  next
    case False
    then have ne: "w \<noteq> W \<or> h \<noteq> H" by simp
    show ?thesis
    proof (cases "double_round (of_nat w / of_nat h) = double_round (of_nat W / of_nat H)")
      case True
      with ne assms(1,2) H show ?thesis by (auto simp: normalize_def)
    next
      case False
      with ne assms(1,2) H show ?thesis by (auto simp: normalize_def Let_def)
    qed
  qed
qed

text \<open>
  For a frame height below \<open>2 ^ 20\<close> the comparisons of the two ratios as floats
  come out as the comparisons of the ratios themselves.
\<close>

lemma target_ratio:
  assumes "to_resolution aspect = (W, H)"
  shows "0 < H" "H < 2 ^ 11" "0 < (of_nat W :: rat) / of_nat H"
    "(of_nat W :: rat) / of_nat H \<le> 16 / 9"
  using assms by (cases aspect; simp add: to_resolution_def; fastforce)+

lemma ratio_compare:
  fixes w h W H :: nat
  assumes "0 < h" "h < 2 ^ 20" "to_resolution aspect = (W, H)"
  shows "(double_round (of_nat w / of_nat h) = double_round (of_nat W / of_nat H)) =
           ((of_nat w :: rat) / of_nat h = of_nat W / of_nat H)"
    and "(double_round (of_nat W / of_nat H) < double_round (of_nat w / of_nat h)) =
           ((of_nat W :: rat) / of_nat H < of_nat w / of_nat h)"
proof -
  let ?a = "(of_nat w :: rat) / of_nat h" and ?b = "(of_nat W :: rat) / of_nat H"
  note t = target_ratio [OF assms(3)]
  have a0: "0 \<le> ?a" by simp
  from t(4) have b2: "?b < 2" by linarith
  have "h * H \<le> 2 ^ 20 * 2 ^ 11" using assms(2) t(2) by (intro mult_mono) simp_all
  then have hH: "h * H \<le> 2 ^ 31" "H * h \<le> 2 ^ 31" by (simp_all add: mult.commute)
  have lt: "double_round ?a < double_round ?b" if "?a < ?b"
    using that a0 b2 ratio_gap [OF assms(1) t(1) hH(1) that]
    by (intro double_round_separates)
  have gt: "double_round ?b < double_round ?a" if g: "?b < ?a"
  proof (cases "?a < 2")
    case True
    from t(3) have "0 \<le> ?b" by simp
    from this g True ratio_gap [OF t(1) assms(1) hH(2) g] show ?thesis
      by (intro double_round_separates)
  next
    case False
    then have "2 \<le> ?a" by simp
    from double_round_mono [OF _ this] have "2 \<le> double_round ?a"
      unfolding double_round_2 by simp
    moreover have "(1 :: rat) / 2 ^ 53 < 2 / 9" by simp
    with double_round_near [OF t(3) b2] t(4) have "double_round ?b < 2" by linarith
    ultimately show ?thesis by simp
  qed
  show "(double_round ?a = double_round ?b) = (?a = ?b)"
    using lt gt by (cases ?a ?b rule: linorder_cases) auto
  show "(double_round ?b < double_round ?a) = (?b < ?a)"
    using lt gt by (cases ?a ?b rule: linorder_cases) auto
qed

text \<open>
  Claim C6: for every segment of frame size \<open>(w, h)\<close>, with a height that is not zero
  and sides below \<open>2 ^ 20\<close>, and every target resolution \<open>(W, H)\<close> of the three
  aspects, the normaliser of \<open>combine_videos\<close> returns a clip of resolution exactly
  \<open>(W, H)\<close>: the segment itself when it is at \<open>(W, H)\<close> already; the segment scaled to
  \<open>(W, H)\<close> when the ratios \<open>w/h\<close> and \<open>W/H\<close> are equal; otherwise the segment scaled
  by the float \<open>W/w\<close> when \<open>w/h\<close> is the greater and by the float \<open>H/h\<close> when not, to
  the sides \<open>int(w * f)\<close> and \<open>int(h * f)\<close> computed on floats, centred over a black
  background of size \<open>(W, H)\<close> that lasts as long as the segment.
\<close>

theorem normalize_resolution:
  assumes "size_of clip = (w, h)" and "0 < h" and "w < 2 ^ 20" and "h < 2 ^ 20"
    and "to_resolution aspect = (W, H)"
  shows "\<exists>out. normalize W H clip = Inr out \<and> size_of out = (W, H) \<and>
           ((w, h) = (W, H) \<longrightarrow> out = clip) \<and>
           ((w, h) \<noteq> (W, H) \<and> (of_nat w :: rat) / of_nat h = of_nat W / of_nat H \<longrightarrow>
              out = Resized clip W H) \<and>
           ((w, h) \<noteq> (W, H) \<and> (of_nat w :: rat) / of_nat h \<noteq> of_nat W / of_nat H \<longrightarrow>
              (let f = (if (of_nat W :: rat) / of_nat H < of_nat w / of_nat h
                        then double_round (of_nat W / of_nat w)
                        else double_round (of_nat H / of_nat h))
               in out = CompositeVideoClip
                    [ColorClip W H (0, 0, 0) (duration_of clip),
                     WithPosition
                       (Resized clip (nat \<lfloor>double_round (double_round (of_nat w) * f)\<rfloor>)
                          (nat \<lfloor>double_round (double_round (of_nat h) * f)\<rfloor>))
                       ''center'']))"
  using normalize_cases [OF assms(1,2,5)] unfolding ratio_compare [OF assms(2,4,5)] .

text \<open>
  A segment of 854 by 480 normalised to 1920 by 1080: the ratio \<open>854/480\<close> is the
  greater, the scale factor is the float \<open>1920/854\<close>, and the products
  \<open>854 * f\<close> and \<open>480 * f\<close> are the floats just below 1920 and 1080, so the
  segment is scaled to 1919 by 1079.
\<close>

lemma double_round_854_480: "double_round (427 / 240) = 8012654337030007 / 4503599627370496"
  using double_round_certificate [of "427 / 240" "- 52" 8012654337030007]
  by (simp add: power_int_minus_divide)

lemma double_round_1920_1080: "double_round (16 / 9) = 2001599834386887 / 1125899906842624"
  using double_round_certificate [of "16 / 9" "- 52" 8006399337547548]
  by (simp add: power_int_minus_divide)

lemma double_round_1920_854: "double_round (960 / 427) = 2531297214447117 / 1125899906842624"
  using double_round_certificate [of "960 / 427" "- 51" 5062594428894234]
  by (simp add: power_int_minus_divide)

lemma double_round_854: "double_round 854 = 854"
  using double_round_certificate [of 854 "- 43" 7511863440965632]
  by (simp add: power_int_minus_divide)

lemma double_round_480: "double_round 480 = 480"
  using double_round_certificate [of 480 "- 44" 8444249301319680]
  by (simp add: power_int_minus_divide)

lemma double_round_new_width: "double_round (1080863910568918959 / 562949953421312) = 8444249301319679 / 4398046511104"
  using double_round_certificate [of "1080863910568918959 / 562949953421312" "- 42" 8444249301319679]
  by (simp add: power_int_minus_divide)

lemma double_round_new_height: "double_round (37969458216706755 / 35184372088832) = 593272784636043 / 549755813888"
  using double_round_certificate [of "37969458216706755 / 35184372088832" "- 42" 4746182277088344]
  by (simp add: power_int_minus_divide)


lemma floor_new_width: "\<lfloor>(8444249301319679 :: rat) / 4398046511104\<rfloor> = 1919"
  by (rule floor_unique) simp_all

lemma floor_new_height: "\<lfloor>(593272784636043 :: rat) / 549755813888\<rfloor> = 1079"
  by (rule floor_unique) simp_all

lemma normalize_854_480:
  "normalize 1920 1080 (VideoFileClip ''a.mp4'' 10 854 480) =
     Inr (CompositeVideoClip
            [ColorClip 1920 1080 (0, 0, 0) 10,
             WithPosition (Resized (VideoFileClip ''a.mp4'' 10 854 480) 1919 1079) ''center''])"
  by (simp add: normalize_def Let_def double_round_854_480 double_round_1920_1080
      double_round_1920_854 double_round_854 double_round_480 double_round_new_width
      double_round_new_height floor_new_width floor_new_height)

theorem normalize_resolution_witness:
  "size_of (VideoFileClip ''a.mp4'' 10 854 480) = (854, 480) \<and> (0 :: nat) < 480 \<and>
   (854 :: nat) < 2 ^ 20 \<and> (480 :: nat) < 2 ^ 20 \<and>
   to_resolution landscape = (1920, 1080) \<and>
   normalize 1920 1080 (VideoFileClip ''a.mp4'' 10 854 480) =
     Inr (CompositeVideoClip
            [ColorClip 1920 1080 (0, 0, 0) 10,
             WithPosition (Resized (VideoFileClip ''a.mp4'' 10 854 480) 1919 1079) ''center'']) \<and>
   size_of (CompositeVideoClip
              [ColorClip 1920 1080 (0, 0, 0) 10,
               WithPosition (Resized (VideoFileClip ''a.mp4'' 10 854 480) 1919 1079) ''center''])
     = (1920, 1080)"
proof -
  let ?c = "VideoFileClip ''a.mp4'' 10 854 480"
  let ?out = "CompositeVideoClip
     [ColorClip 1920 1080 (0, 0, 0) 10, WithPosition (Resized ?c 1919 1079) ''center'']"
  have h1: "size_of ?c = (854, 480)" by simp
  have h2: "(0 :: nat) < 480" by simp
  have h3: "(854 :: nat) < 2 ^ 20" by simp
  have h4: "(480 :: nat) < 2 ^ 20" by simp
  have h5: "to_resolution landscape = (1920, 1080)" by (simp add: to_resolution_def)
  from normalize_resolution [OF h1 h2 h3 h4 h5] obtain out where
    o: "normalize 1920 1080 ?c = Inr out" "size_of out = (1920, 1080)" by blast
  from o(1) have "out = ?out" by (simp add: normalize_854_480)
  with o have "normalize 1920 1080 ?c = Inr ?out" "size_of ?out = (1920, 1080)" by simp_all
  with h1 h2 h3 h4 h5 show ?thesis by blast
qed

subsection \<open>The packing loop\<close>

text \<open>A run of the loop from an empty pool, short of the audio, never returns.\<close>

lemma pack_while_empty_no_result:
  assumes "pack_while rnd W H tm mx ad raw st = Some y"
  shows "\<not> (raw = [] \<and> video_duration st < ad)"
proof (rule pack_while.raw_induct
    [where P = "\<lambda>rnd W H tm mx ad raw st y. \<not> (raw = [] \<and> video_duration st < ad)",
      OF _ assms])
  fix f :: "(nat \<Rightarrow> nat) \<Rightarrow> nat \<Rightarrow> nat \<Rightarrow> VideoTransitionMode option \<Rightarrow> int \<Rightarrow> rat
              \<Rightarrow> vclip list \<Rightarrow> pack_state \<Rightarrow> (py_error + pack_state) option"
  fix rnd W H tm mx ad raw st y
  assume IH: "\<And>rnd W H tm mx ad raw st y. f rnd W H tm mx ad raw st = Some y \<Longrightarrow>
              \<not> (raw = [] \<and> video_duration st < ad)"
  assume step: "(if video_duration st < ad
      then case pack_for rnd W H tm mx ad raw st of
             Inl e \<Rightarrow> Some (Inl e)
           | Inr st' \<Rightarrow> f rnd W H tm mx ad raw st'
      else Some (Inr st)) = Some y"
  show "\<not> (raw = [] \<and> video_duration st < ad)"
  proof
    assume a: "raw = [] \<and> video_duration st < ad"
    with step have "f rnd W H tm mx ad raw st = Some y" by simp
    from IH [OF this] a show False by simp
  qed
qed

lemma pack_while_empty:
  "video_duration st < ad \<Longrightarrow> pack_while rnd W H tm mx ad [] st = None"
  using pack_while_empty_no_result [of rnd W H tm mx ad "[]" st]
  by (cases "pack_while rnd W H tm mx ad [] st") auto

text \<open>
  Claim C2, evaluated on the code: one source file that reports the duration zero gives
  an empty pool, and with an audio track of seven seconds \<open>combine_videos\<close> neither
  raises nor returns: the loop \<open>while video_duration < audio_duration\<close> runs for ever.
\<close>

theorem combine_videos_empty_pool_hangs:
  "build_raw_clips media_0s 5 random [''a.mp4''] [] = Some [] \<and>
   combine_videos media_0s (\<lambda>_. 0) 7 [''a.mp4''] portrait random (Some none) 5 = None"
  by (simp add: combine_videos_def to_resolution_def media_0s_def split_while.simps
      random_shuffle_def pack_while_empty)

text \<open>
  Claim C1, evaluated on the code: three segments of five seconds and an audio track of
  seven seconds. The second segment is trimmed to the two seconds that remain, and the
  loop over the pool goes on: a third segment, trimmed to the duration zero, is
  appended after it.
\<close>

theorem combine_videos_appends_after_final_trim:
  "map_option (map_sum id (map duration_of))
     (combine_videos media_5s (\<lambda>_. 0) 7 [''a.mp4'', ''b.mp4'', ''c.mp4''] portrait sequential
        (Some none) 5) = Some (Inr [5, 2, 0])"
  by (simp add: combine_videos_def to_resolution_def media_5s_def split_while.simps
      pack_while.simps pack_clip_def normalize_def apply_transition_def Let_def)

subsection \<open>The transition mode\<close>


lemma WithEffect_neq: "WithEffect c e \<noteq> c"
  by (induction c) auto

lemma pick_mem: "xs \<noteq> [] \<Longrightarrow> pick rnd k xs \<in> set xs"
  by (simp add: pick_def)

lemma apply_transition_None: "apply_transition rnd k None clip = Inl AttributeError"
  by (simp add: apply_transition_def)

lemma apply_transition_none: "apply_transition rnd k (Some none) clip = Inr (clip, Suc k)"
  by (simp add: apply_transition_def)

lemma apply_transition_unchanged:
  assumes "apply_transition rnd k m clip = Inr (clip, k')"
  shows "m = Some none"
proof (cases m)
  case None
  with assms show ?thesis by (simp add: apply_transition_def)
next
  case (Some t)
  let ?s = "pick rnd k [left, right, top, bottom]"
  let ?fs = "[\<lambda>c. fadein_transition c 1, \<lambda>c. fadeout_transition c 1,
              \<lambda>c. slidein_transition c 1 ?s, \<lambda>c. slideout_transition c 1 ?s]"
  have "pick rnd (Suc k) ?fs \<in> set ?fs" by (rule pick_mem) simp
  then have ne: "pick rnd (Suc k) ?fs clip \<noteq> clip"
    by (auto simp: fadein_transition_def fadeout_transition_def slidein_transition_def
        slideout_transition_def WithEffect_neq)
  show ?thesis
  proof (cases t)
    case shuffle
    with Some assms ne show ?thesis by (simp add: apply_transition_def Let_def)
  qed (use Some assms in \<open>simp_all add: apply_transition_def Let_def fadein_transition_def fadeout_transition_def slidein_transition_def
        slideout_transition_def WithEffect_neq\<close>)
qed

lemma split_while_positive_heights:
  assumes "split_while clip cd mx mode t0 raw = Some y"
  shows "0 < snd (size_of clip) \<and> positive_heights raw \<longrightarrow> positive_heights y"
proof (rule split_while.raw_induct
    [where P = "\<lambda>clip cd mx mode t0 raw y. 0 < snd (size_of clip) \<and> positive_heights raw \<longrightarrow> positive_heights y",
      OF _ assms])
  fix f :: "vclip \<Rightarrow> rat \<Rightarrow> int \<Rightarrow> VideoConcatMode \<Rightarrow> rat \<Rightarrow> vclip list \<Rightarrow> vclip list option"
  fix clip cd mx mode t0 raw y
  assume IH: "\<And>clip cd mx mode t0 raw y. f clip cd mx mode t0 raw = Some y \<Longrightarrow>
              0 < snd (size_of clip) \<and> positive_heights raw \<longrightarrow> positive_heights y"
  assume step: "(if t0 < cd
      then let end_time = min (t0 + of_int mx) cd;
               split_clip = Subclipped clip t0 end_time;
               raw_clips' = raw @ [split_clip]
           in if concat_value mode = concat_value sequential then Some raw_clips'
              else f clip cd mx mode end_time raw_clips'
      else Some raw) = Some y"
  show "0 < snd (size_of clip) \<and> positive_heights raw \<longrightarrow> positive_heights y"
  proof
    assume a: "0 < snd (size_of clip) \<and> positive_heights raw"
    show "positive_heights y"
    proof (cases "t0 < cd")
      case False
      with step a show ?thesis by simp
    next
      case True
      let ?raw' = "raw @ [Subclipped clip t0 (min (t0 + of_int mx) cd)]"
      from a have t: "positive_heights ?raw'" by (simp add: positive_heights_def)
      show ?thesis
      proof (cases "concat_value mode = concat_value sequential")
        case True
        with step \<open>t0 < cd\<close> t show ?thesis by (simp add: Let_def)
      next
        case False
        with step \<open>t0 < cd\<close> have "f clip cd mx mode (min (t0 + of_int mx) cd) ?raw' = Some y"
          by (simp add: Let_def)
        from IH [OF this] a t show ?thesis by simp
      qed
    qed
  qed
qed

lemma build_raw_clips_positive_heights:
  "build_raw_clips media mx mode paths raw = Some pool \<Longrightarrow>
   \<forall>p \<in> set paths. 0 < snd (snd (media p)) \<Longrightarrow> positive_heights raw \<Longrightarrow> positive_heights pool"
proof (induction paths arbitrary: raw)
  case Nil
  then show ?case by simp
next
  case (Cons p ps)
  obtain d w h where m: "media p = (d, w, h)" by (cases "media p") auto
  from Cons.prems(2) m have h: "0 < h" by simp
  let ?clip = "WithoutAudio (VideoFileClip p d w h)"
  from Cons.prems(1) m obtain raw' where
    s: "split_while ?clip d mx mode 0 raw = Some raw'" and
    b: "build_raw_clips media mx mode ps raw' = Some pool"
    by (auto simp: Let_def split: option.splits)
  from split_while_positive_heights [OF s] h Cons.prems(3) have "positive_heights raw'" by simp
  with Cons.IH [OF b] Cons.prems(2) show ?case by simp
qed

lemma shuffle_loop_props:
  "i < length xs \<Longrightarrow> set (fst (shuffle_loop rnd k i xs)) = set xs \<and>
     length (fst (shuffle_loop rnd k i xs)) = length xs"
proof (induction i arbitrary: k xs)
  case 0
  then show ?case by simp
next
  case (Suc i)
  let ?j = "rnd k mod (Suc i + 1)"
  have "?j < Suc i + 1" by (rule mod_less_divisor) simp
  with Suc.prems have j: "?j < length xs" by linarith
  let ?xs = "xs[Suc i := xs ! ?j, ?j := xs ! Suc i]"
  have "set ?xs = set xs" using set_swap [OF Suc.prems j] by simp
  moreover have "length ?xs = length xs" by simp
  moreover have "i < length ?xs" using Suc.prems by simp
  ultimately show ?case using Suc.IH [of ?xs "Suc k"] by (simp add: Let_def)
qed

lemma random_shuffle_props:
  "set (fst (random_shuffle rnd k xs)) = set xs \<and> (fst (random_shuffle rnd k xs) = [] \<longleftrightarrow> xs = [])"
proof (cases xs)
  case Nil
  then show ?thesis by (simp add: random_shuffle_def)
next
  case (Cons a as)
  then have "length xs - 1 < length xs" by simp
  from shuffle_loop_props [OF this, of rnd k] Cons show ?thesis
    by (auto simp: random_shuffle_def)
qed

lemma pack_clip_None:
  assumes "0 < snd (size_of c)" "0 < H"
  shows "pack_clip rnd W H None mx ad c st = Inl AttributeError"
proof -
  define c1 where "c1 = (if ad - video_duration st < duration_of c then
               Subclipped c 0 (ad - video_duration st)
             else if of_int mx < duration_of c then Subclipped c 0 (of_int mx)
             else c)"
  have "size_of (WithFps c1 30) = size_of c" by (simp add: c1_def)
  with assms(1) have "0 < snd (size_of (WithFps c1 30))" by simp
  from normalize_ok [OF this assms(2)] obtain c3 where "normalize W H (WithFps c1 30) = Inr c3"
    by blast
  then show ?thesis
    unfolding pack_clip_def Let_def c1_def [symmetric]
    by (simp add: apply_transition_None)
qed

lemma pack_for_None:
  assumes "raw \<noteq> []" "positive_heights raw" "0 < H"
  shows "pack_for rnd W H None mx ad raw st = Inl AttributeError"
proof -
  from assms(1) obtain c cs where r: "raw = c # cs" by (cases raw) auto
  with assms(2) have h: "0 < snd (size_of c)" by (simp add: positive_heights_def)
  from pack_clip_None [OF h assms(3)] r show ?thesis by simp
qed

text \<open>
  Claim C10: when \<open>combine_videos\<close> is called with Python's \<open>None\<close> as the
  transition mode (the default of the function and of \<open>VideoParams\<close>), then for
  every clip pool that is not empty (source files of a frame height that is not zero,
  an audio track of positive duration, so that the loop body runs) it raises
  \<open>AttributeError\<close>; a clip passes the transition step unchanged only under the
  member \<open>VideoTransitionMode.none\<close>.
\<close>

theorem combine_videos_None_transition_raises:
  assumes "build_raw_clips media mx mode video_paths [] = Some pool"
    and "pool \<noteq> []"
    and "\<forall>p \<in> set video_paths. 0 < snd (snd (media p))"
    and "0 < audio_duration"
  shows "combine_videos media rnd audio_duration video_paths aspect mode None mx =
           Some (Inl AttributeError) \<and>
         (\<forall>k k' m clip. apply_transition rnd k m clip = Inr (clip, k') \<longrightarrow> m = Some none) \<and>
         (\<forall>k clip. apply_transition rnd k (Some none) clip = Inr (clip, Suc k))"
proof -
  have ne: "video_paths \<noteq> []" using assms(1,2) by (cases video_paths) auto
  obtain W H where res: "to_resolution aspect = (W, H)" by (cases "to_resolution aspect") auto
  with to_resolution_height_pos [of aspect] have H: "0 < H" by simp
  have t0: "positive_heights pool" using build_raw_clips_positive_heights [OF assms(1) assms(3)] by (simp add: positive_heights_def)
  have pw: "pack_while rnd W H None mx audio_duration raw
          \<lparr>clips = [], video_duration = 0, draws = k\<rparr> = Some (Inl AttributeError)"
    if "raw \<noteq> []" "positive_heights raw" for raw k
    by (subst pack_while.simps) (simp add: assms(4) pack_for_None [OF that H])
  have sh: "fst (random_shuffle rnd 0 pool) \<noteq> []" "positive_heights (fst (random_shuffle rnd 0 pool))"
    using random_shuffle_props [of rnd 0 pool] t0 assms(2) by (simp_all add: positive_heights_def)
  have "combine_videos media rnd audio_duration video_paths aspect mode None mx =
           Some (Inl AttributeError)"
  proof (cases "concat_value mode = concat_value random")
    case True
    then show ?thesis
      unfolding combine_videos_def
      by (simp add: ne res assms(1) split_beta pw [OF sh])
  next
    case False
    then show ?thesis
      unfolding combine_videos_def
      by (simp add: ne res assms(1) pw [OF assms(2) t0])
  qed
  then show ?thesis
    using apply_transition_unchanged apply_transition_none by blast
qed

theorem combine_videos_None_transition_raises_witness:
  "build_raw_clips media_10s_landscape 5 random [''a.mp4''] [] =
     Some [Subclipped (WithoutAudio (VideoFileClip ''a.mp4'' 10 1920 1080)) 0 5,
           Subclipped (WithoutAudio (VideoFileClip ''a.mp4'' 10 1920 1080)) 5 10] \<and>
   0 < snd (snd (media_10s_landscape ''a.mp4'')) \<and> (0 :: rat) < 7 \<and>
   combine_videos media_10s_landscape (\<lambda>_. 0) 7 [''a.mp4''] portrait random None 5 =
     Some (Inl AttributeError)"
proof -
  have h1: "build_raw_clips media_10s_landscape 5 random [''a.mp4''] [] =
     Some [Subclipped (WithoutAudio (VideoFileClip ''a.mp4'' 10 1920 1080)) 0 5,
           Subclipped (WithoutAudio (VideoFileClip ''a.mp4'' 10 1920 1080)) 5 10]"
    by (simp add: media_10s_landscape_def split_while.simps Let_def)
  have h2: "[Subclipped (WithoutAudio (VideoFileClip ''a.mp4'' 10 1920 1080)) 0 5,
           Subclipped (WithoutAudio (VideoFileClip ''a.mp4'' 10 1920 1080)) 5 10] \<noteq> []" by simp
  have h3: "\<forall>p \<in> set [''a.mp4'']. 0 < snd (snd (media_10s_landscape p))"
    by (simp add: media_10s_landscape_def)
  have h4: "(0 :: rat) < 7" by simp
  have h3': "0 < snd (snd (media_10s_landscape ''a.mp4''))"
    by (simp add: media_10s_landscape_def)
  from combine_videos_None_transition_raises [OF h1 h2 h3 h4, of "\<lambda>_. 0" portrait] h1 h3' h4
  show ?thesis by blast
qed

subsection \<open>Text wrapping\<close>

text \<open>
  Claim C3, evaluated on the code: the single word \<open>abcdefgh\<close> (80 pixels) does not
  fit the width 35, so \<open>wrap_text\<close> falls back to the character loop. That loop
  closes a line only after the character that made it too wide was added: both lines it
  produces are 40 pixels wide, more than \<open>max_width\<close>.
\<close>

theorem wrap_text_fallback_exceeds_max_width:
  "wrap_text mono10 ''abcdefgh'' 35 = (''abcd'' @ [NL] @ ''efgh'', 36) \<and>
   line_widths mono10 (fst (wrap_text mono10 ''abcdefgh'' 35)) = [40, 40]"
  by (simp add: wrap_text_def get_text_size_def mono10_def strip_def is_space_def NL_def
      Let_def line_widths_def emitted_lines_def)

text \<open>
  The word loop has the second way to a line that is too wide: a word that does not fit
  and is not the first word of its line opens a new line without any check, and no
  fallback follows.
\<close>

lemma wrap_text_long_word_after_short:
  "wrap_text mono10 ''a bbbbbbbb'' 35 = (''a'' @ [NL] @ ''bbbbbbbb'', 24) \<and>
   line_widths mono10 (fst (wrap_text mono10 ''a bbbbbbbb'' 35)) = [10, 80]"
  by (simp add: wrap_text_def get_text_size_def mono10_def strip_def is_space_def NL_def
      Let_def line_widths_def emitted_lines_def)

subsection \<open>Background music\<close>

lemma fmod_9_10: "fmod 9 10 = 9"
  using floor_divide_of_int_eq [of 9 10, where ?'a = rat] by (simp add: fmod_def)

lemma fmod_24_10: "fmod 24 10 = 4"
  using floor_divide_of_int_eq [of 24 10, where ?'a = rat] by (simp add: fmod_def)

text \<open>
  Claim C7, as stated, fails: \<open>generate_video\<close> applies the fade-out to the song
  before the loop. With a song of 10 seconds under a video of 25 seconds, the track of
  the code is faded at second 9 (inside the first repetition) and at full level at
  second 24, one second before the end; the track of the specification, looped first
  and faded afterwards, is at full level at second 9 and faded at second 24.
\<close>

theorem bgm_fade_out_counterexample:
  "generate_video host_with_song (\<lambda>_. 0) song_params 25 ''audio.mp3'' =
     Inr (CompositeAudioClip
            [with_effects voice_25s [MultiplyVolume 1],
             with_effects song_10s [MultiplyVolume 1, AudioFadeOut 3, AudioLoop 25]], []) \<and>
   a_frame (with_effects song_10s [MultiplyVolume 1, AudioFadeOut 3, AudioLoop 25]) 9 = 1 / 3 \<and>
   a_frame (with_effects song_10s [MultiplyVolume 1, AudioFadeOut 3, AudioLoop 25]) 24 = 1 \<and>
   a_frame (AudioMixer_spec_bgm song_10s 1 25) 9 = 1 \<and>
   a_frame (AudioMixer_spec_bgm song_10s 1 25) 24 = 1 / 3"
  by (simp add: generate_video_def open_audio_def host_with_song_def song_params_def
      default_params_def get_bgm_file_def truthy_def with_effects_def voice_25s_def song_10s_def
      AudioMixer_spec_bgm_def fmod_9_10 fmod_24_10)

text \<open>
  Claim C7, amended: when a background track is configured and can be opened,
  \<open>generate_video\<close> scales it by \<open>bgm_volume\<close>, applies the fade-out of three seconds
  to the end of the track itself and then loops the faded track to the duration of the
  final video, before it is mixed with the voice track: at the time \<open>t\<close> the signal is
  that of the faded track at \<open>t\<close> modulo the length of the track.
\<close>

theorem bgm_effects_order:
  assumes "open_audio hst audio_path = Inr voice"
    and "get_bgm_file hst rnd (bgm_type params) (bgm_file params) = Inr bgm"
    and "bgm \<noteq> []"
    and "open_audio hst bgm = Inr track"
  shows "generate_video hst rnd params D audio_path =
           Inr (CompositeAudioClip
                  [WithAudioEffect voice (MultiplyVolume (voice_volume params)),
                   WithAudioEffect
                     (WithAudioEffect (WithAudioEffect track (MultiplyVolume (bgm_volume params)))
                        (AudioFadeOut 3))
                     (AudioLoop D)], []) \<and>
         a_frame (WithAudioEffect
                     (WithAudioEffect (WithAudioEffect track (MultiplyVolume (bgm_volume params)))
                        (AudioFadeOut 3))
                     (AudioLoop D)) t =
           min ((a_duration track - fmod t (a_duration track)) / 3) 1 *
             (bgm_volume params * a_frame track (fmod t (a_duration track)))"
  using assms by (simp add: generate_video_def Let_def with_effects_def)

theorem bgm_effects_order_witness:
  "open_audio host_with_song ''audio.mp3'' = Inr voice_25s \<and>
   get_bgm_file host_with_song (\<lambda>_. 0) (bgm_type song_params) (bgm_file song_params) =
     Inr ''song.mp3'' \<and>
   open_audio host_with_song ''song.mp3'' = Inr song_10s \<and>
   generate_video host_with_song (\<lambda>_. 0) song_params 25 ''audio.mp3'' =
     Inr (CompositeAudioClip
            [WithAudioEffect voice_25s (MultiplyVolume (voice_volume song_params)),
             WithAudioEffect
               (WithAudioEffect (WithAudioEffect song_10s (MultiplyVolume (bgm_volume song_params)))
                  (AudioFadeOut 3))
               (AudioLoop 25)], [])"
proof -
  have h1: "open_audio host_with_song ''audio.mp3'' = Inr voice_25s"
    by (simp add: open_audio_def host_with_song_def voice_25s_def)
  have h2: "get_bgm_file host_with_song (\<lambda>_. 0) (bgm_type song_params) (bgm_file song_params) =
     Inr ''song.mp3''"
    by (simp add: get_bgm_file_def host_with_song_def song_params_def default_params_def
        truthy_def)
  have h3: "''song.mp3'' \<noteq> []" by simp
  have h4: "open_audio host_with_song ''song.mp3'' = Inr song_10s"
    by (simp add: open_audio_def host_with_song_def song_10s_def)
  from bgm_effects_order [OF h1 h2 h3 h4, of 25 0] h1 h2 h4 show ?thesis by blast
qed

text \<open>A failure to open the chosen track is caught: the voice track alone is returned.\<close>

lemma bgm_open_failure_is_caught:
  assumes "open_audio hst audio_path = Inr voice"
    and "get_bgm_file hst rnd (bgm_type params) (bgm_file params) = Inr bgm"
    and "open_audio hst bgm = Inl e"
  shows "\<exists>log. generate_video hst rnd params D audio_path =
           Inr (with_effects voice [MultiplyVolume (voice_volume params)], log)"
  using assms by (simp add: generate_video_def Let_def)

text \<open>
  Claim C8, evaluated on the code: with the default parameters (\<open>bgm_type = "random"\<close>,
  no \<open>bgm_file\<close>) and a song directory without any \<open>mp3\<close> file, \<open>get_bgm_file\<close>
  raises \<open>IndexError\<close> from \<open>random.choice\<close>; the call stands before the \<open>try\<close> of
  \<open>generate_video\<close>, so \<open>generate_video\<close> raises.
\<close>

theorem bgm_pick_failure_not_caught:
  "get_bgm_file host_no_songs (\<lambda>_. 0) (bgm_type default_params) (bgm_file default_params) =
     Inl IndexError \<and>
   generate_video host_no_songs (\<lambda>_. 0) default_params 25 ''audio.mp3'' = Inl IndexError"
  by (simp add: generate_video_def open_audio_def host_no_songs_def
      default_params_def get_bgm_file_def truthy_def with_effects_def random_choice_def)

subsection \<open>The orchestrator\<close>

lemma trace_ok_append:
  "trace_ok t (xs @ ys) = (trace_ok t xs \<and> trace_ok (task_after t xs) ys)"
  by (induction t xs rule: trace_ok.induct) auto

lemma task_after_append: "task_after t (xs @ ys) = task_after (task_after t xs) ys"
  by (induction t xs rule: task_after.induct) auto

lemma trace_ok_set_progress:
  "trace_ok t (set_progress q # evs) =
     (0 \<le> q \<and> t_state t \<noteq> Some TASK_STATE_COMPLETE \<and> t_progress t \<le> q \<and>
      (t_state t = Some TASK_STATE_FAILED \<longrightarrow> q < 100) \<and>
      trace_ok (t\<lparr>t_progress := q\<rparr>) evs)"
  by (cases t) (auto simp: set_progress_def update_ok_def task_ok_def update_task_def)

lemma task_after_set_progress:
  "task_after t (set_progress q # evs) = task_after (t\<lparr>t_progress := q\<rparr>) evs"
  by (cases t) (simp add: set_progress_def update_task_def)

text \<open>
  One step of the progress: the sum of a double and of a number that is not negative,
  rounded, is a double again and is not below the double.
\<close>

lemma progress_step:
  assumes "0 \<le> p" "double_round p = p" "0 \<le> d"
  shows "p \<le> double_round (p + d)" "0 \<le> double_round (p + d)"
    "double_round (double_round (p + d)) = double_round (p + d)"
proof -
  from assms(1,3) have s: "0 \<le> p + d" "p \<le> p + d" by simp_all
  from double_round_mono [OF assms(1) s(2)] show "p \<le> double_round (p + d)"
    unfolding assms(2) .
  with assms(1) show "0 \<le> double_round (p + d)" by simp
  from double_round_idem [OF s(1)]
  show "double_round (double_round (p + d)) = double_round (p + d)" .
qed

lemma loop_trace:
  assumes "final_videos_loop svc params mode js p fs cs tr = (r, tr')"
    and "0 < video_count params"
    and "0 \<le> p" and "double_round p = p"
  shows "\<exists>evs. tr' = tr @ evs \<and> list_all (loop_event params mode) evs \<and>
         (\<forall>t. t_progress t = p \<and> t_state t \<noteq> Some TASK_STATE_FAILED \<and>
              t_state t \<noteq> Some TASK_STATE_COMPLETE \<longrightarrow>
              trace_ok t evs \<and> t_state (task_after t evs) = t_state t) \<and>
         (\<forall>fs' cs'. r = Inr (fs', cs') \<longrightarrow> (fs' = [] \<longleftrightarrow> fs = [] \<and> js = []))"
  using assms(1,3,4)
proof (induction js arbitrary: p fs cs tr)
  case Nil
  then show ?case by auto
next
  case (Cons i js)
  define d where "d = double_round (double_round (50 / of_int (video_count params)) / 2)"
  have "0 \<le> double_round (50 / of_int (video_count params))"
    using assms(2) by (intro double_round_nonneg) simp
  then have d: "0 \<le> d" unfolding d_def by (intro double_round_nonneg) simp
  define p1 where "p1 = double_round (p + d)"
  define p2 where "p2 = double_round (p1 + d)"
  note s1 = progress_step [OF Cons.prems(2,3) d, folded p1_def]
  note s2 = progress_step [OF s1(2,3) d, folded p2_def]
  let ?c = "CombineVideos (i + 1) mode (video_transition_mode params)"
  show ?case
  proof (cases "svc_combine_videos svc (i + 1)")
    case (Some e)
    with Cons.prems(1) show ?thesis by (auto simp: Let_def loop_event_def)
  next
    case None
    note c = this
    show ?thesis
    proof (cases "svc_generate_video svc (i + 1)")
      case (Some e)
      let ?evs = "[?c, set_progress p1, GenerateVideo (i + 1)]"
      from Some c Cons.prems(1) have "tr' = tr @ ?evs" and "r = Inl e"
        unfolding p1_def d_def by (auto simp: Let_def)
      moreover have "list_all (loop_event params mode) ?evs"
        by (simp add: loop_event_def set_progress_def)
      moreover have "trace_ok t ?evs \<and> t_state (task_after t ?evs) = t_state t"
        if "t_progress t = p \<and> t_state t \<noteq> Some TASK_STATE_FAILED \<and>
            t_state t \<noteq> Some TASK_STATE_COMPLETE" for t
        using that s1 by (simp add: trace_ok_set_progress task_after_set_progress)
      ultimately show ?thesis by (intro exI [of _ ?evs]) simp
    next
      case None
      let ?four = "[?c, set_progress p1, GenerateVideo (i + 1), set_progress p2]"
      from c None Cons.prems(1) have
        rec: "final_videos_loop svc params mode js p2 (fs @ [i + 1]) (cs @ [i + 1])
                (tr @ ?four) = (r, tr')"
        unfolding p2_def p1_def d_def by (simp add: Let_def)
      from Cons.IH [OF rec s2(2,3)] obtain evs where
        e: "tr' = (tr @ ?four) @ evs" and IH1: "list_all (loop_event params mode) evs"
        and IH2: "\<And>t. t_progress t = p2 \<and> t_state t \<noteq> Some TASK_STATE_FAILED \<and>
              t_state t \<noteq> Some TASK_STATE_COMPLETE \<Longrightarrow>
              trace_ok t evs \<and> t_state (task_after t evs) = t_state t"
        and IH3: "\<forall>fs' cs'. r = Inr (fs', cs') \<longrightarrow> (fs' = [] \<longleftrightarrow> fs @ [i + 1] = [] \<and> js = [])"
        by blast
      have 1: "tr' = tr @ (?four @ evs)" using e by simp
      have 2: "list_all (loop_event params mode) (?four @ evs)"
        using IH1 by (simp add: loop_event_def set_progress_def)
      have 3: "trace_ok t (?four @ evs) \<and> t_state (task_after t (?four @ evs)) = t_state t"
        if t: "t_progress t = p \<and> t_state t \<noteq> Some TASK_STATE_FAILED \<and>
            t_state t \<noteq> Some TASK_STATE_COMPLETE" for t
      proof -
        let ?t2 = "t\<lparr>t_progress := p2\<rparr>"
        have "t_progress ?t2 = p2 \<and> t_state ?t2 \<noteq> Some TASK_STATE_FAILED \<and>
              t_state ?t2 \<noteq> Some TASK_STATE_COMPLETE"
          using t by simp
        from IH2 [OF this] t s1 s2 show ?thesis
          by (simp add: trace_ok_set_progress task_after_set_progress)
      qed
      have 5: "\<forall>fs' cs'. r = Inr (fs', cs') \<longrightarrow> (fs' = [] \<longleftrightarrow> fs = [] \<and> i # js = [])"
        using IH3 by simp
      from 1 2 3 5 show ?thesis by blast
    qed
  qed
qed

lemma update_task_set_state [simp]:
  "update_task \<lparr>u_state = Some s, u_progress = None, u_fields = ns\<rparr> t = t\<lparr>t_state := Some s\<rparr>"
  by (cases t) (simp add: update_task_def)

lemma update_task_set_state_progress [simp]:
  "update_task \<lparr>u_state = Some s, u_progress = Some q, u_fields = ns\<rparr> t =
     \<lparr>t_state = Some s, t_progress = q\<rparr>"
  by (simp add: update_task_def)

lemma generate_final_videos_trace:
  assumes "generate_final_videos svc params tr = (r, tr')"
  shows "\<exists>evs. tr' = tr @ evs \<and> list_all (loop_event params (expected_mode params)) evs \<and>
         (\<forall>t. t_progress t = 50 \<and> t_state t \<noteq> Some TASK_STATE_FAILED \<and>
              t_state t \<noteq> Some TASK_STATE_COMPLETE \<longrightarrow>
              trace_ok t evs \<and> t_state (task_after t evs) = t_state t \<and>
              (\<forall>fs' cs'. r = Inr (fs', cs') \<longrightarrow> (fs' = [] \<longrightarrow> evs = [])))"
proof (cases "0 < video_count params")
  case False
  then have "[0 ..< nat (video_count params)] = []" by simp
  with assms show ?thesis by (auto simp: generate_final_videos_def)
next
  case True
  let ?js = "[0 ..< nat (video_count params)]"
  have ne: "?js \<noteq> []" using True by simp
  from assms have "final_videos_loop svc params (expected_mode params) ?js 50 [] [] tr = (r, tr')"
    by (simp add: generate_final_videos_def expected_mode_def)
  from loop_trace [OF this True _ double_round_50] obtain evs where
    1: "tr' = tr @ evs" and 2: "list_all (loop_event params (expected_mode params)) evs"
    and 3: "\<And>t. t_progress t = 50 \<and> t_state t \<noteq> Some TASK_STATE_FAILED \<and>
              t_state t \<noteq> Some TASK_STATE_COMPLETE \<Longrightarrow>
              trace_ok t evs \<and> t_state (task_after t evs) = t_state t"
    and 4: "\<forall>fs' cs'. r = Inr (fs', cs') \<longrightarrow> (fs' = [] \<longleftrightarrow> [] = ([] :: nat list) \<and> ?js = [])"
    by auto
  from 4 ne have "\<forall>fs' cs'. r = Inr (fs', cs') \<longrightarrow> (fs' = [] \<longrightarrow> evs = [])" by simp
  with 1 2 3 show ?thesis by blast
qed

lemma trace_ok_set_state:
  "trace_ok t (set_state s # evs) =
     (t_state t \<noteq> Some TASK_STATE_COMPLETE \<and> (s = TASK_STATE_FAILED \<longrightarrow> t_progress t < 100) \<and>
      trace_ok (t\<lparr>t_state := Some s\<rparr>) evs)"
  by (cases t) (auto simp: set_state_def update_ok_def task_ok_def)

lemma trace_ok_set_state_progress:
  "trace_ok t (set_state_progress s q ns # evs) =
     ((q = 100 \<longrightarrow> s = TASK_STATE_COMPLETE) \<and> s \<noteq> TASK_STATE_FAILED \<and> 0 \<le> q \<and> q \<le> 100 \<and>
      t_state t \<noteq> Some TASK_STATE_COMPLETE \<and> (s \<noteq> TASK_STATE_COMPLETE \<longrightarrow> t_progress t \<le> q) \<and>
      trace_ok \<lparr>t_state = Some s, t_progress = q\<rparr> evs)"
  by (cases t) (auto simp: set_state_progress_def update_ok_def task_ok_def)

lemma task_after_set_state:
  "task_after t (set_state s # evs) = task_after (t\<lparr>t_state := Some s\<rparr>) evs"
  by (simp add: set_state_def)

lemma task_after_set_state_progress:
  "task_after t (set_state_progress s q ns # evs) =
     task_after \<lparr>t_state = Some s, t_progress = q\<rparr> evs"
  by (simp add: set_state_progress_def)

lemma event_ok_updates:
  "event_ok params (set_state s)" "event_ok params (set_state_progress s q ns)"
  "event_ok params (set_progress q)"
  by (simp_all add: set_state_def set_state_progress_def set_progress_def)

lemmas trace_simps = event_ok_updates trace_ok_append task_after_append trace_ok_set_state
  trace_ok_set_state_progress task_after_set_state task_after_set_state_progress

lemma generate_script_trace:
  assumes "generate_script svc params tr = (r, tr1)"
  shows "(truthy r \<and> tr1 = tr) \<or> (\<not> truthy r \<and> tr1 = tr @ [set_state TASK_STATE_FAILED])"
  using assms by (auto simp: generate_script_def Let_def truthy_def split: if_splits)

lemma generate_terms_trace:
  assumes "generate_terms svc params tr = (r, tr1)"
  shows "(r \<noteq> None \<and> tr1 = tr) \<or> (r = None \<and> tr1 = tr @ [set_state TASK_STATE_FAILED])"
  using assms by (auto simp: generate_terms_def Let_def split: if_splits)

lemma generate_audio_trace:
  assumes "generate_audio svc params tr = (r, tr1)"
  shows "(r \<noteq> None \<and> tr1 = tr) \<or> (r = None \<and> tr1 = tr @ [set_state TASK_STATE_FAILED])"
  using assms by (auto simp: generate_audio_def split: if_splits)

lemma get_video_materials_trace:
  assumes "get_video_materials svc params d tr = (r, tr1)"
  shows "\<exists>ev. (ev = PreprocessVideo \<or>
               ev = DownloadVideos (video_concat_mode params) (d * of_int (video_count params))) \<and>
           ((r \<noteq> None \<and> r \<noteq> Some [] \<and> tr1 = tr @ [ev]) \<or>
            (r = None \<and> tr1 = tr @ [ev, set_state TASK_STATE_FAILED]))"
  using assms by (auto simp: get_video_materials_def Let_def split: if_splits)

lemma loop_event_ok:
  "list_all (loop_event params (expected_mode params)) evs \<Longrightarrow> list_all (event_ok params) evs"
  by (induction evs) (auto simp: loop_event_def split: event.splits)

lemma run_ok_append:
  "run_ok params (xs @ ys) =
     (trace_ok \<lparr>t_state = None, t_progress = 0\<rparr> xs \<and> list_all (event_ok params) xs \<and>
      trace_ok (task_after \<lparr>t_state = None, t_progress = 0\<rparr> xs) ys \<and>
      list_all (event_ok params) ys)"
  by (auto simp: run_ok_def trace_ok_append)

lemma start_run_ok: "run_ok params (snd (start svc params stop_at))"
proof -
  let ?P = "\<lambda>q. set_state_progress TASK_STATE_PROCESSING q []"
  let ?F = "set_state TASK_STATE_FAILED"
  obtain script tr1 where gs: "generate_script svc params [?P 5] = (script, tr1)"
    by (cases "generate_script svc params [?P 5]") auto
  note s1 = generate_script_trace [OF gs]
  show ?thesis
  proof (cases "\<not> truthy script \<or> contains ''Error: '' (the script)")
    case True
    with s1 show ?thesis
      unfolding start_def Let_def gs prod.case option.case append.simps
      by (auto simp: run_ok_def trace_simps)
  next
    case A: False
    with s1 have gs': "generate_script svc params [?P 5] = (script, [?P 5])"
      using gs by auto
    show ?thesis
    proof (cases "stop_at = ''script''")
      case True
      with A show ?thesis unfolding start_def Let_def gs' prod.case option.case append.simps
      by (simp add: run_ok_def trace_simps)
    next
      case B: False
      obtain terms tr3 where gt:
        "(if video_source params \<noteq> ''local'' then generate_terms svc params [?P 5, ?P 10]
          else (Some [], [?P 5, ?P 10])) = (terms, tr3)"
        by (cases "if video_source params \<noteq> ''local'' then generate_terms svc params [?P 5, ?P 10]
          else (Some [], [?P 5, ?P 10])") auto
      then have s3: "(terms \<noteq> None \<and> tr3 = [?P 5, ?P 10]) \<or>
          (video_source params \<noteq> ''local'' \<and> terms = None \<and> tr3 = [?P 5, ?P 10, ?F])"
        using generate_terms_trace [of svc params "[?P 5, ?P 10]" terms tr3]
        by (auto split: if_splits)
      show ?thesis
      proof (cases "video_source params \<noteq> ''local'' \<and> terms = None")
        case True
        with s3 A B show ?thesis
          unfolding start_def Let_def gs' gt prod.case option.case append.simps
      by (auto simp: run_ok_def trace_simps)
      next
        case C: False
        with s3 have gt': "(if video_source params \<noteq> ''local''
            then generate_terms svc params [?P 5, ?P 10]
            else (Some [], [?P 5, ?P 10])) = (terms, [?P 5, ?P 10])"
          using gt by auto
        show ?thesis
        proof (cases "stop_at = ''terms''")
          case True
          with A B C show ?thesis unfolding start_def Let_def gs' gt' prod.case option.case append.simps
      by (simp add: run_ok_def trace_simps)
        next
          case D: False
          obtain audio tr6 where ga:
            "generate_audio svc params [?P 5, ?P 10, SaveScriptData, ?P 20] = (audio, tr6)"
            by (cases "generate_audio svc params [?P 5, ?P 10, SaveScriptData, ?P 20]") auto
          note s6 = generate_audio_trace [OF ga]
          show ?thesis
          proof (cases audio)
            case None
            with s6 A B C D show ?thesis
              unfolding start_def Let_def gs' gt' ga prod.case option.case append.simps
      by (auto simp: run_ok_def trace_simps)
          next
            case (Some ad)
            obtain audio_file audio_duration where ad: "ad = (audio_file, audio_duration)"
              by (cases ad) auto
            from Some s6 ga ad have ga':
              "generate_audio svc params [?P 5, ?P 10, SaveScriptData, ?P 20] =
                 (Some (audio_file, audio_duration), [?P 5, ?P 10, SaveScriptData, ?P 20])"
              by auto
            show ?thesis
            proof (cases "stop_at = ''audio'' \<or> stop_at = ''subtitle''")
              case True
              with A B C D show ?thesis
                unfolding start_def Let_def gs' gt' ga' prod.case option.case append.simps
      by (auto simp: run_ok_def trace_simps)
            next
              case G: False
              let ?tr8 = "[?P 5, ?P 10, SaveScriptData, ?P 20, ?P 30, ?P 40]"
              obtain dl tr9 where gm:
                "get_video_materials svc params audio_duration ?tr8 = (dl, tr9)"
                by (cases "get_video_materials svc params audio_duration ?tr8") auto
              from get_video_materials_trace [OF gm] obtain ev where
                ev: "ev = PreprocessVideo \<or> ev = DownloadVideos (video_concat_mode params)
                       (audio_duration * of_int (video_count params))"
                and s9: "(dl \<noteq> None \<and> dl \<noteq> Some [] \<and> tr9 = ?tr8 @ [ev]) \<or>
                         (dl = None \<and> tr9 = ?tr8 @ [ev, ?F])"
                by blast
              from ev have evok: "event_ok params ev" "trace_ok t [ev] " "task_after t [ev] = t" for t
                by auto
              show ?thesis
              proof (cases "dl = None \<or> dl = Some []")
                case True
                with s9 have "tr9 = ?tr8 @ [ev, ?F]" by auto
                with True A B C D G ev show ?thesis
                  unfolding start_def Let_def gs' gt' ga' gm prod.case option.case append.simps
      by (auto simp: run_ok_def trace_simps)
              next
                case H: False
                with s9 have gm': "get_video_materials svc params audio_duration ?tr8 =
                    (dl, [?P 5, ?P 10, SaveScriptData, ?P 20, ?P 30, ?P 40, ev])"
                  using gm by auto
                show ?thesis
                proof (cases "stop_at = ''materials''")
                  case True
                  with A B C D G H ev show ?thesis
                    unfolding start_def Let_def gs' gt' ga' gm' prod.case option.case append.simps
      by (auto simp: run_ok_def trace_simps)
                next
                  case I: False
                  let ?tr10 = "[?P 5, ?P 10, SaveScriptData, ?P 20, ?P 30, ?P 40, ev, ?P 50]"
                  obtain r tr11 where gf: "generate_final_videos svc params ?tr10 = (r, tr11)"
                    by (cases "generate_final_videos svc params ?tr10") auto
                  from generate_final_videos_trace [OF gf] obtain evs where
                    t11: "tr11 = ?tr10 @ evs"
                    and l11: "list_all (loop_event params (expected_mode params)) evs"
                    and k11: "\<And>t. t_progress t = 50 \<and> t_state t \<noteq> Some TASK_STATE_FAILED \<and>
                        t_state t \<noteq> Some TASK_STATE_COMPLETE \<Longrightarrow>
                        trace_ok t evs \<and> t_state (task_after t evs) = t_state t \<and>
                        (\<forall>fs' cs'. r = Inr (fs', cs') \<longrightarrow> (fs' = [] \<longrightarrow> evs = []))"
                    by blast
                  let ?t50 = "\<lparr>t_state = Some TASK_STATE_PROCESSING, t_progress = 50\<rparr>"
                  have "t_progress ?t50 = 50 \<and> t_state ?t50 \<noteq> Some TASK_STATE_FAILED \<and>
                      t_state ?t50 \<noteq> Some TASK_STATE_COMPLETE" by simp
                  note k = k11 [OF this]
                  have pre: "run_ok params tr11"
                    unfolding t11 run_ok_append using k ev loop_event_ok [OF l11]
                    by (auto simp: trace_simps)
                  have after: "task_after \<lparr>t_state = None, t_progress = 0\<rparr> tr11 =
                                 task_after ?t50 evs"
                    unfolding t11 using ev by (auto simp: trace_simps)
                  show ?thesis
                  proof (cases r)
                    case (Inl e)
                    with A B C D G H I pre show ?thesis
                      unfolding start_def Let_def gs' gt' ga' gm' gf prod.case option.case append.simps
      by auto
                  next
                    case (Inr pr)
                    obtain fs' cs' where pr: "pr = (fs', cs')" by (cases pr) auto
                    from k Inr pr have k':
                      "fs' = [] \<longrightarrow> evs = []"
                      "t_state (task_after ?t50 evs) = Some TASK_STATE_PROCESSING"
                      by auto
                    have fin: "run_ok params (tr11 @ [ev'])"
                      if "trace_ok (task_after ?t50 evs) [ev']" "event_ok params ev'" for ev'
                      using pre that unfolding run_ok_def trace_ok_append after by simp
                    show ?thesis
                    proof (cases "fs' = []")
                      case True
                      with k' have "trace_ok (task_after ?t50 evs) [?F]"
                        by (simp add: trace_simps)
                      from fin [OF this event_ok_updates(1)] True A B C D G H I Inr pr show ?thesis
                        unfolding start_def Let_def gs' gt' ga' gm' gf prod.case option.case append.simps
      by auto
                    next
                      case False
                      let ?C = "set_state_progress TASK_STATE_COMPLETE 100
                        [''videos'', ''combined_videos'', ''script'', ''terms'',
                         ''audio_file'', ''audio_duration'', ''subtitle_path'', ''materials'']"
                      from False k' have "trace_ok (task_after ?t50 evs) [?C]"
                        by (simp add: trace_simps)
                      from fin [OF this event_ok_updates(2)] False A B C D G H I Inr pr show ?thesis
                        unfolding start_def Let_def gs' gt' ga' gm' gf prod.case option.case append.simps
      by auto
                    qed
                  qed
                qed
              qed
            qed
          qed
        qed
      qed
    qed
  qed
qed





text \<open>
  Claim C4, amended: the concat mode handed to \<open>combine_videos\<close> is the mode of the
  parameters when one output is requested and \<open>random\<close> otherwise, the same for every
  output of the run (it is computed once in \<open>generate_final_videos\<close>, before the loop
  over the outputs); the parameters are not changed, and material acquisition, which
  runs before, observes the mode of the parameters.
\<close>

theorem concat_mode_observed:
  assumes "tr = snd (start svc params stop_at)"
  shows "(\<forall>m a. DownloadVideos m a \<in> set tr \<longrightarrow> m = video_concat_mode params) \<and>
         (\<forall>i m t. CombineVideos i m t \<in> set tr \<longrightarrow>
            m = (if video_count params = 1 then video_concat_mode params else random))"
proof -
  from start_run_ok [of params svc stop_at] assms have "list_all (event_ok params) tr"
    by (simp add: run_ok_def)
  then have "\<forall>ev \<in> set tr. event_ok params ev" by (simp add: list_all_iff)
  then show ?thesis by (fastforce simp: expected_mode_def)
qed

lemma ceiling_13_2: "\<lceil>(13 :: rat) / 2\<rceil> = 7"
  by (rule ceiling_unique) simp_all

lemma run_two_sequential: "snd (start all_fine two_sequential ''video'') =
  [set_state_progress TASK_STATE_PROCESSING 5 [],
   set_state_progress TASK_STATE_PROCESSING 10 [], SaveScriptData,
   set_state_progress TASK_STATE_PROCESSING 20 [],
   set_state_progress TASK_STATE_PROCESSING 30 [],
   set_state_progress TASK_STATE_PROCESSING 40 [],
   DownloadVideos sequential 14,
   set_state_progress TASK_STATE_PROCESSING 50 [],
   CombineVideos 1 random (Some none), set_progress (125 / 2), GenerateVideo 1, set_progress 75,
   CombineVideos 2 random (Some none), set_progress (175 / 2), GenerateVideo 2, set_progress 100,
   set_state_progress TASK_STATE_COMPLETE 100
     [''videos'', ''combined_videos'', ''script'', ''terms'', ''audio_file'',
      ''audio_duration'', ''subtitle_path'', ''materials'']]"
  by (simp add: start_def all_fine_def two_sequential_def default_params_def generate_script_def
      generate_terms_def generate_audio_def get_video_materials_def generate_final_videos_def
      generate_subtitle_def truthy_def strip_def Let_def upt_rec ceiling_13_2
      double_round_values)





text \<open>
  Claim C4, as stated, fails: in the run for two videos requested in sequential mode,
  material acquisition is called with the mode \<open>sequential\<close>, and only the calls of
  \<open>combine_videos\<close>, in the last stage, get \<open>random\<close>.
\<close>

theorem concat_mode_coercion_counterexample:
  "video_count two_sequential = 2 \<and> video_concat_mode two_sequential = sequential \<and>
   DownloadVideos sequential 14 \<in> set (snd (start all_fine two_sequential ''video'')) \<and>
   CombineVideos 1 random (Some none) \<in> set (snd (start all_fine two_sequential ''video''))"
proof -
  have "DownloadVideos sequential 14 \<in> set (snd (start all_fine two_sequential ''video''))"
    and "CombineVideos 1 random (Some none)
           \<in> set (snd (start all_fine two_sequential ''video''))"
    by (simp_all add: run_two_sequential)
  moreover have "video_count two_sequential = 2"
    and "video_concat_mode two_sequential = sequential"
    by (simp_all add: two_sequential_def default_params_def)
  ultimately show ?thesis by blast
qed

theorem concat_mode_observed_witness:
  "DownloadVideos sequential 14 \<in> set (snd (start all_fine two_sequential ''video'')) \<and>
   CombineVideos 2 random (Some none) \<in> set (snd (start all_fine two_sequential ''video'')) \<and>
   sequential = video_concat_mode two_sequential \<and>
   random = (if video_count two_sequential = 1 then video_concat_mode two_sequential else random)"
proof -
  let ?tr = "snd (start all_fine two_sequential ''video'')"
  have m1: "DownloadVideos sequential 14 \<in> set ?tr" by (simp add: run_two_sequential)
  have m2: "CombineVideos 2 random (Some none) \<in> set ?tr" by (simp add: run_two_sequential)
  note t = concat_mode_observed [OF refl, of all_fine two_sequential "''video''"]
  from t m1 have "sequential = video_concat_mode two_sequential" by blast
  moreover from t m2 have
    "random = (if video_count two_sequential = 1 then video_concat_mode two_sequential else random)"
    by blast
  ultimately show ?thesis using m1 m2 by blast
qed

end
